theory Spec2Isabelle
  imports Main
begin

section \<open>Values of the Python program\<close>

text \<open>
  The modules work on decoded JSON documents and on the parameters of the Ansible module:
  \<open>None\<close>, booleans, integers, text, lists and dictionaries with text keys. A dictionary is an
  association list in insertion order (the order Python iterates it in); a dictionary of
  the program has pairwise distinct keys. Floating point numbers are left out.
\<close>

datatype pyval =
    PNone
  | PBool bool
  | PInt int
  | PStr string
  | PList "pyval list"
  | PDict "(string \<times> pyval) list"

text \<open>
  The exceptions the modelled code can end with. \<open>FailJson\<close> is \<open>module.fail_json\<close>, which
  reports the failure and exits the process; its argument says which call it was.
\<close>

datatype failure =
    ExpectedOneResult nat pyval
  | InvalidJsonResponse
  | ApiErrors pyval

datatype error =
    AttributeError
  | TypeError
  | IndexError
  | KeyError
  | UnicodeError
  | FailJson failure

text \<open>Truth value testing: \<open>if x\<close>, \<open>not x\<close>, \<open>while x\<close>.\<close>

fun truthy :: "pyval \<Rightarrow> bool" where
  "truthy PNone = False"
| "truthy (PBool b) = b"
| "truthy (PInt i) = (i \<noteq> 0)"
| "truthy (PStr s) = (s \<noteq> [])"
| "truthy (PList xs) = (xs \<noteq> [])"
| "truthy (PDict m) = (m \<noteq> [])"

text \<open>\<open>key in s\<close> for two texts: \<open>key\<close> occurs in \<open>s\<close> as a contiguous run.\<close>

fun is_substring :: "string \<Rightarrow> string \<Rightarrow> bool" where
  "is_substring key [] = (key = [])"
| "is_substring key (c # cs) = (take (length key) (c # cs) = key \<or> is_substring key cs)"

text \<open>\<open>key in source\<close> for a text key: membership in a dictionary's keys, in a list's
  elements, or as a substring of a text; \<open>None\<close>, booleans and integers are no containers.\<close>

fun py_contains :: "pyval \<Rightarrow> string \<Rightarrow> error + bool" where
  "py_contains (PDict m) key = Inr (map_of m key \<noteq> None)"
| "py_contains (PList xs) key = Inr (PStr key \<in> set xs)"
| "py_contains (PStr s) key = Inr (is_substring key s)"
| "py_contains _ key = Inl TypeError"

text \<open>\<open>source[key]\<close> for a text key: only a dictionary can be indexed by a text.\<close>

fun py_getitem :: "pyval \<Rightarrow> string \<Rightarrow> error + pyval" where
  "py_getitem (PDict m) key = (case map_of m key of None \<Rightarrow> Inl KeyError | Some v \<Rightarrow> Inr v)"
| "py_getitem _ key = Inl TypeError"

text \<open>\<open>d.get(key)\<close>: the value, or \<open>None\<close> for a missing key; only dictionaries have \<open>get\<close>.\<close>

fun py_get :: "pyval \<Rightarrow> string \<Rightarrow> error + pyval" where
  "py_get (PDict m) key = Inr (case map_of m key of None \<Rightarrow> PNone | Some v \<Rightarrow> v)"
| "py_get _ key = Inl AttributeError"

text \<open>\<open>d[key] = v\<close> on a dictionary: replaces the value of a key in place, appends a new key.\<close>

fun dict_set :: "(string \<times> pyval) list \<Rightarrow> string \<Rightarrow> pyval \<Rightarrow> (string \<times> pyval) list" where
  "dict_set [] key v = [(key, v)]"
| "dict_set ((k, w) # m) key v = (if k = key then (key, v) # m else (k, w) # dict_set m key v)"

section \<open>navigate_hash\<close>

text \<open>
  \<^verbatim>\<open>def navigate_hash(source, path, default=None):
    if not source:
        return None
    key = path[0]
    path = path[1:]
    if key not in source:
        return default
    result = source[key]
    if path:
        return navigate_hash(result, path, default)
    return result\<close>
\<close>

fun navigate_hash :: "pyval \<Rightarrow> string list \<Rightarrow> pyval \<Rightarrow> error + pyval" where
  "navigate_hash source path dflt =
     (if \<not> truthy source then Inr PNone
      else case path of
        [] \<Rightarrow> Inl IndexError
      | key # path' \<Rightarrow>
          (case py_contains source key of
             Inl e \<Rightarrow> Inl e
           | Inr False \<Rightarrow> Inr dflt
           | Inr True \<Rightarrow>
               (case py_getitem source key of
                  Inl e \<Rightarrow> Inl e
                | Inr result \<Rightarrow>
                    if path' \<noteq> [] then navigate_hash result path' dflt else Inr result)))"

text \<open>
  The two readings of "a key along the path is missing", as predicates on the source and
  the path. \<open>key_missing_from_mapping\<close> follows the words of the specification: the walk
  reaches a non-empty dictionary that lacks the next key. \<open>key_missing\<close> also counts the
  other containers the membership test accepts: a non-empty list that does not hold the key
  and a non-empty text of which the key is no substring.
\<close>

fun key_missing_from_mapping :: "pyval \<Rightarrow> string list \<Rightarrow> bool" where
  "key_missing_from_mapping (PDict m) (key # path') =
     (m \<noteq> [] \<and> (case map_of m key of
                   None \<Rightarrow> True
                 | Some v \<Rightarrow> path' \<noteq> [] \<and> key_missing_from_mapping v path'))"
| "key_missing_from_mapping _ _ = False"

fun key_missing :: "pyval \<Rightarrow> string list \<Rightarrow> bool" where
  "key_missing (PDict m) (key # path') =
     (m \<noteq> [] \<and> (case map_of m key of
                   None \<Rightarrow> True
                 | Some v \<Rightarrow> path' \<noteq> [] \<and> key_missing v path'))"
| "key_missing (PList xs) (key # path') = (xs \<noteq> [] \<and> PStr key \<notin> set xs)"
| "key_missing (PStr s) (key # path') = (s \<noteq> [] \<and> \<not> is_substring key s)"
| "key_missing _ _ = False"

section \<open>HcpRequest: the difference between a request and a response\<close>

subsection \<open>Text conversion\<close>

text \<open>
  \<open>to_text\<close> is imported from Ansible (\<open>ansible.module_utils._text\<close>) and is not part of the
  repository. The model takes it as a parameter \<open>tt\<close>: \<open>tt v = Some s\<close> when \<open>to_text(v)\<close> is
  the text \<open>s\<close>, and \<open>tt v = None\<close> when it raises \<open>UnicodeError\<close>, the one exception the code
  expects of it.
\<close>

type_synonym to_text_fn = "pyval \<Rightarrow> string option"

text \<open>\<open>str.capitalize\<close> on ASCII letters: the first character in upper case, the others in
  lower case; every other character is kept.\<close>

definition ascii_upper :: "char \<Rightarrow> char" where
  "ascii_upper c =
     (case map_of (zip ''abcdefghijklmnopqrstuvwxyz'' ''ABCDEFGHIJKLMNOPQRSTUVWXYZ'') c of
        None \<Rightarrow> c
      | Some u \<Rightarrow> u)"

definition ascii_lower :: "char \<Rightarrow> char" where
  "ascii_lower c =
     (case map_of (zip ''ABCDEFGHIJKLMNOPQRSTUVWXYZ'' ''abcdefghijklmnopqrstuvwxyz'') c of
        None \<Rightarrow> c
      | Some l \<Rightarrow> l)"

fun capitalize :: "string \<Rightarrow> string" where
  "capitalize [] = []"
| "capitalize (c # cs) = ascii_upper c # map ascii_lower cs"

text \<open>
  \<^verbatim>\<open>def _convert_value(self, value):
    if isinstance(value, list):
        new_list = []
        for item in value:
            new_list.append(self._convert_value(item))
        return new_list
    if isinstance(value, dict):
        new_dict = {}
        for key in value:
            new_dict[key] = self._convert_value(value[key])
        return new_dict
    return to_text(value)\<close>
  The two loops are \<open>convert_list\<close> and \<open>convert_dict\<close>; their last argument is \<open>new_list\<close>
  and \<open>new_dict\<close>.
\<close>

fun convert_value :: "to_text_fn \<Rightarrow> pyval \<Rightarrow> error + pyval"
  and convert_list :: "to_text_fn \<Rightarrow> pyval list \<Rightarrow> pyval list \<Rightarrow> error + pyval list"
  and convert_dict ::
    "to_text_fn \<Rightarrow> (string \<times> pyval) list \<Rightarrow> (string \<times> pyval) list \<Rightarrow> error + (string \<times> pyval) list"
where
  "convert_value tt (PList value) =
     (case convert_list tt value [] of
        Inl e \<Rightarrow> Inl e
      | Inr new_list \<Rightarrow> Inr (PList new_list))"
| "convert_value tt (PDict value) =
     (case convert_dict tt value [] of
        Inl e \<Rightarrow> Inl e
      | Inr new_dict \<Rightarrow> Inr (PDict new_dict))"
| "convert_value tt v =
     (case tt v of
        None \<Rightarrow> Inl UnicodeError
      | Some s \<Rightarrow> Inr (PStr s))"
| "convert_list tt [] new_list = Inr new_list"
| "convert_list tt (item # rest) new_list =
     (case convert_value tt item of
        Inl e \<Rightarrow> Inl e
      | Inr c \<Rightarrow> convert_list tt rest (new_list @ [c]))"
| "convert_dict tt [] new_dict = Inr new_dict"
| "convert_dict tt ((key, v) # rest) new_dict =
     (case convert_value tt v of
        Inl e \<Rightarrow> Inl e
      | Inr c \<Rightarrow> convert_dict tt rest (dict_set new_dict key c))"

text \<open>\<open>for item in x\<close>: the elements of a list, the keys of a dictionary, the characters of
  a text; nothing else can be iterated.\<close>

fun py_iter :: "pyval \<Rightarrow> error + pyval list" where
  "py_iter (PList xs) = Inr xs"
| "py_iter (PDict m) = Inr (map (\<lambda>kv. PStr (fst kv)) m)"
| "py_iter (PStr s) = Inr (map (\<lambda>c. PStr [c]) s)"
| "py_iter _ = Inl TypeError"

subsection \<open>The comparison\<close>

text \<open>
  \<^verbatim>\<open>def _compare_boolean(self, req_value, resp_value):
    try:
        if req_value == bool(to_text(resp_value).capitalize() == 'True'):
            return None
        return True
    except UnicodeError:
        return None\<close>
\<close>

definition compare_boolean :: "to_text_fn \<Rightarrow> bool \<Rightarrow> pyval \<Rightarrow> pyval" where
  "compare_boolean tt req_value resp_value =
     (case tt resp_value of
        None \<Rightarrow> PNone
      | Some s \<Rightarrow> if req_value = (capitalize s = ''True'') then PNone else PBool True)"

text \<open>
  The methods \<open>_compare_value\<close>, \<open>_compare_dicts\<close> and \<open>_compare_lists\<close> call one another
  through \<open>self\<close>. The loops of the last two are defined first, with the method they call
  back as the parameter \<open>cmp\<close>; \<open>compare_value\<close> then closes the recursion.

  \<^verbatim>\<open>def _compare_dicts(self, req_dict, resp_dict):
    difference = {}
    for key in req_dict:
        if resp_dict.get(key) is not None:
            diff_value = self._compare_value(req_dict.get(key), resp_dict.get(key))
            if diff_value:
                difference[key] = diff_value
    return difference\<close>
\<close>

fun dicts_loop ::
  "(pyval \<Rightarrow> pyval \<Rightarrow> error + pyval) \<Rightarrow> (string \<times> pyval) list \<Rightarrow> pyval \<Rightarrow>
     (string \<times> pyval) list \<Rightarrow> error + pyval"
where
  "dicts_loop cmp [] resp_dict difference = Inr (PDict difference)"
| "dicts_loop cmp ((key, v) # rest) resp_dict difference =
     (case py_get resp_dict key of
        Inl e \<Rightarrow> Inl e
      | Inr r \<Rightarrow>
          if r \<noteq> PNone then
            (case cmp v r of
               Inl e \<Rightarrow> Inl e
             | Inr diff_value \<Rightarrow>
                 dicts_loop cmp rest resp_dict
                   (if truthy diff_value then dict_set difference key diff_value else difference))
          else dicts_loop cmp rest resp_dict difference)"

definition compare_dicts_with ::
  "(pyval \<Rightarrow> pyval \<Rightarrow> error + pyval) \<Rightarrow> (string \<times> pyval) list \<Rightarrow> pyval \<Rightarrow> error + pyval"
where
  "compare_dicts_with cmp req_dict resp_dict = dicts_loop cmp req_dict resp_dict []"

text \<open>
  \<^verbatim>\<open>def _compare_lists(self, req_list, resp_list):
    difference = []
    new_req_list = self._convert_value(req_list)
    new_resp_list = self._convert_value(resp_list)
    for req_item in new_req_list:
        found_item = False
        for resp_item in new_resp_list:
            # Looking for a None value here.
            if not self._compare_value(req_item, resp_item):
                found_item = True
        if not found_item and req_item:
            difference.append(req_item)
    return difference\<close>
  The inner loop is \<open>lists_find\<close> (it has no \<open>break\<close>: every response item is compared),
  the outer loop is \<open>lists_loop\<close>.
\<close>

fun lists_find ::
  "(pyval \<Rightarrow> pyval \<Rightarrow> error + pyval) \<Rightarrow> pyval \<Rightarrow> pyval list \<Rightarrow> bool \<Rightarrow> error + bool"
where
  "lists_find cmp req_item [] found_item = Inr found_item"
| "lists_find cmp req_item (resp_item # rest) found_item =
     (case cmp req_item resp_item of
        Inl e \<Rightarrow> Inl e
      | Inr d \<Rightarrow> lists_find cmp req_item rest (if \<not> truthy d then True else found_item))"

fun lists_loop ::
  "(pyval \<Rightarrow> pyval \<Rightarrow> error + pyval) \<Rightarrow> pyval list \<Rightarrow> pyval \<Rightarrow> pyval list \<Rightarrow> error + pyval"
where
  "lists_loop cmp [] new_resp_list difference = Inr (PList difference)"
| "lists_loop cmp (req_item # rest) new_resp_list difference =
     (case py_iter new_resp_list of
        Inl e \<Rightarrow> Inl e
      | Inr resp_items \<Rightarrow>
          (case lists_find cmp req_item resp_items False of
             Inl e \<Rightarrow> Inl e
           | Inr found_item \<Rightarrow>
               lists_loop cmp rest new_resp_list
                 (if \<not> found_item \<and> truthy req_item then difference @ [req_item]
                  else difference)))"

definition compare_lists_with ::
  "(pyval \<Rightarrow> pyval \<Rightarrow> error + pyval) \<Rightarrow> to_text_fn \<Rightarrow> pyval list \<Rightarrow> pyval \<Rightarrow> error + pyval"
where
  "compare_lists_with cmp tt req_list resp_list =
     (case convert_value tt (PList req_list) of
        Inl e \<Rightarrow> Inl e
      | Inr new_req_list \<Rightarrow>
          (case convert_value tt resp_list of
             Inl e \<Rightarrow> Inl e
           | Inr new_resp_list \<Rightarrow>
               (case py_iter new_req_list of
                  Inl e \<Rightarrow> Inl e
                | Inr req_items \<Rightarrow> lists_loop cmp req_items new_resp_list [])))"

text \<open>
  \<^verbatim>\<open>def _compare_value(self, req_value, resp_value):
    diff = None
    # If a None is found, a difference does not exist.
    # Only differing values matter.
    if resp_value is None:
        return None

    # Can assume non-None types at this point.
    try:
        if isinstance(req_value, list):
            diff = self._compare_lists(req_value, resp_value)
        elif isinstance(req_value, dict):
            diff = self._compare_dicts(req_value, resp_value)
        elif isinstance(req_value, bool):
            diff = self._compare_boolean(req_value, resp_value)
        # Always use to_text values to avoid unicode issues.
        elif to_text(req_value) != to_text(resp_value):
            diff = req_value
    # to_text may throw UnicodeErrors.
    # These errors shouldn't crash Ansible and should be hidden.
    except UnicodeError:
        pass

    return diff\<close>
  \<open>hide_unicode\<close> is the \<open>try\<close> statement: a \<open>UnicodeError\<close> of the branch taken leaves \<open>diff\<close>
  at \<open>None\<close>, every other exception goes on to the caller.
\<close>

definition hide_unicode :: "error + pyval \<Rightarrow> error + pyval" where
  "hide_unicode r =
     (case r of
        Inl e \<Rightarrow> if e = UnicodeError then Inr PNone else Inl e
      | Inr diff \<Rightarrow> Inr diff)"

text \<open>
  Facts the definition of \<open>compare_value\<close> needs: conversion does not enlarge a value, and
  the loops call \<open>cmp\<close> only on the items of the request.
\<close>

lemma size_dict_set:
  "size_list (size_prod (\<lambda>x. 0) size) (dict_set m key v)
     \<le> size_list (size_prod (\<lambda>x. 0) size) m + size v + 2"
  by (induction m key v rule: dict_set.induct) auto

lemma size_convert:
  "convert_value tt v = Inr c \<Longrightarrow> size c \<le> size v"
  "convert_list tt xs acc = Inr ys \<Longrightarrow> size_list size ys \<le> size_list size xs + size_list size acc"
  "convert_dict tt m dacc = Inr n \<Longrightarrow>
     size_list (size_prod (\<lambda>x. 0) size) n
       \<le> size_list (size_prod (\<lambda>x. 0) size) m + size_list (size_prod (\<lambda>x. 0) size) dacc"
proof (induction tt v and tt xs acc and tt m dacc arbitrary: c and ys and n
    rule: convert_value_convert_list_convert_dict.induct)
  case (5 tt item rest new_list)
  from "5.prems" obtain c where c: "convert_value tt item = Inr c"
    and ys: "convert_list tt rest (new_list @ [c]) = Inr ys"
    by (auto split: sum.splits)
  from "5.IH"(1) [OF c] "5.IH"(2) [OF c ys] show ?case by simp
next
  case (7 tt key v rest new_dict)
  from "7.prems" obtain c where c: "convert_value tt v = Inr c"
    and n: "convert_dict tt rest (dict_set new_dict key c) = Inr n"
    by (auto split: sum.splits)
  from "7.IH"(1) [OF c] have "size c \<le> size v" .
  moreover from "7.IH"(2) [OF c n]
  have "size_list (size_prod (\<lambda>x. 0) size) n
      \<le> size_list (size_prod (\<lambda>x. 0) size) rest
        + size_list (size_prod (\<lambda>x. 0) size) (dict_set new_dict key c)" .
  moreover note size_dict_set [of new_dict key c]
  ultimately show ?case by simp
qed (auto split: sum.splits option.splits)

lemma size_item_of_list: "x \<in> set xs \<Longrightarrow> size x < Suc (size_list size xs)"
  by (induction xs) auto

lemma size_value_of_dict:
  "(k, v) \<in> set m \<Longrightarrow> size v < Suc (size_list (size_prod (\<lambda>x. 0) size) m)"
  by (induction m) auto

lemma lists_find_cong:
  "(\<And>r. r \<in> set rs \<Longrightarrow> cmp y r = cmp' y r) \<Longrightarrow> lists_find cmp y rs f = lists_find cmp' y rs f"
  by (induction rs arbitrary: f) (auto split: sum.splits)

lemma lists_loop_cong:
  "(\<And>y r. y \<in> set ys \<Longrightarrow> cmp y r = cmp' y r) \<Longrightarrow>
     lists_loop cmp ys resp d = lists_loop cmp' ys resp d"
proof (induction ys arbitrary: d)
  case (Cons y ys)
  have "lists_find cmp y rs False = lists_find cmp' y rs False" for rs
    by (rule lists_find_cong) (simp add: Cons.prems)
  moreover have "lists_loop cmp ys resp d' = lists_loop cmp' ys resp d'" for d'
    by (rule Cons.IH) (simp add: Cons.prems)
  ultimately show ?case by (simp split: sum.splits)
qed simp

lemma compare_lists_with_cong [fundef_cong]:
  assumes "tt = tt'" "req_list = req_list'" "resp_list = resp_list'"
    and "\<And>new_req_list req_item resp_item.
           convert_value tt' (PList req_list') = Inr (PList new_req_list) \<Longrightarrow>
           req_item \<in> set new_req_list \<Longrightarrow> cmp req_item resp_item = cmp' req_item resp_item"
  shows "compare_lists_with cmp tt req_list resp_list = compare_lists_with cmp' tt' req_list' resp_list'"
proof -
  have "lists_loop cmp ys r [] = lists_loop cmp' ys r []"
    if "convert_value tt' (PList req_list') = Inr (PList ys)" for ys r
    by (rule lists_loop_cong) (rule assms(4) [OF that])
  then show ?thesis
    unfolding compare_lists_with_def assms(1-3)
    by (auto split: sum.splits)
qed

lemma dicts_loop_cong:
  "(\<And>k v r. (k, v) \<in> set m \<Longrightarrow> cmp v r = cmp' v r) \<Longrightarrow>
     dicts_loop cmp m resp d = dicts_loop cmp' m resp d"
proof (induction m arbitrary: d)
  case (Cons kv m)
  obtain k v where kv: "kv = (k, v)" by (cases kv)
  have "cmp v r = cmp' v r" for r
    using Cons.prems [of k v r] by (simp add: kv)
  moreover have "cmp w r = cmp' w r" if "(j, w) \<in> set m" for j w r
    using Cons.prems [of j w r] that by simp
  then have "dicts_loop cmp m resp d' = dicts_loop cmp' m resp d'" for d'
    by (rule Cons.IH)
  ultimately show ?case by (simp add: kv split: sum.splits)
qed simp

lemma compare_dicts_with_cong [fundef_cong]:
  assumes "req_dict = req_dict'" "resp_dict = resp_dict'"
    and "\<And>key v r. (key, v) \<in> set req_dict' \<Longrightarrow> cmp v r = cmp' v r"
  shows "compare_dicts_with cmp req_dict resp_dict = compare_dicts_with cmp' req_dict' resp_dict'"
proof -
  have "dicts_loop cmp req_dict' resp_dict' [] = dicts_loop cmp' req_dict' resp_dict' []"
    using assms(3) by (rule dicts_loop_cong)
  then show ?thesis by (simp add: compare_dicts_with_def assms(1,2))
qed

function compare_value :: "to_text_fn \<Rightarrow> pyval \<Rightarrow> pyval \<Rightarrow> error + pyval" where
  "compare_value tt req_value resp_value =
     (if resp_value = PNone then Inr PNone
      else
        hide_unicode
          (case req_value of
             PList req_list \<Rightarrow>
               compare_lists_with (\<lambda>a b. compare_value tt a b) tt req_list resp_value
           | PDict req_dict \<Rightarrow>
               compare_dicts_with (\<lambda>a b. compare_value tt a b) req_dict resp_value
           | PBool b \<Rightarrow> Inr (compare_boolean tt b resp_value)
           | _ \<Rightarrow>
               (case tt req_value of
                  None \<Rightarrow> Inl UnicodeError
                | Some s \<Rightarrow>
                    (case tt resp_value of
                       None \<Rightarrow> Inl UnicodeError
                     | Some s' \<Rightarrow> Inr (if s \<noteq> s' then req_value else PNone)))))"
  by pat_completeness auto
termination
proof (relation "measure (\<lambda>(tt, req_value, resp_value). size req_value)", goal_cases)
  case 1
  show ?case by simp
next
  case (2 tt req_value resp_value req_list new_req_list req_item resp_item)
  from size_convert(1) [OF 2(3)] size_item_of_list [OF 2(4)] 2(2)
  show ?case by simp
next
  case (3 tt req_value resp_value req_dict key v r)
  from size_value_of_dict [OF 3(3)] 3(2) show ?case by simp
qed

text \<open>The two methods as the class has them, and \<open>difference\<close>, which compares the request
  of \<open>self\<close> with the request of the other object.\<close>

definition compare_dicts :: "to_text_fn \<Rightarrow> (string \<times> pyval) list \<Rightarrow> pyval \<Rightarrow> error + pyval" where
  "compare_dicts tt req_dict resp_dict =
     compare_dicts_with (\<lambda>a b. compare_value tt a b) req_dict resp_dict"

definition compare_lists :: "to_text_fn \<Rightarrow> pyval list \<Rightarrow> pyval \<Rightarrow> error + pyval" where
  "compare_lists tt req_list resp_list =
     compare_lists_with (\<lambda>a b. compare_value tt a b) tt req_list resp_list"

definition difference :: "to_text_fn \<Rightarrow> pyval \<Rightarrow> pyval \<Rightarrow> error + pyval" where
  "difference tt request response = compare_value tt request response"

section \<open>HcpSession: requests and the paged list\<close>

text \<open>
  A response of the HTTP library, as far as the modules read it: the status code and the
  result of \<open>response.json()\<close>, which is \<open>None\<close> here when the body is no JSON document (the
  call then raises \<open>JSONDecodeError\<close>).
\<close>

record response =
  status_code :: nat
  json :: "pyval option"

text \<open>
  The state the session works on. \<open>requests\<close> is the log of the GET requests issued so far,
  each with its URL and the query parameters as they were when it was sent (\<open>PNone\<close> for
  \<open>params=None\<close>). Query parameters are a dictionary object that caller and callee share, so
  dictionaries passed as \<open>params\<close> live in \<open>heap\<close> and are passed by address; \<open>next_free\<close> is the
  address the next new dictionary gets.

  The remote service is a parameter \<open>srv\<close>: it answers the last request of a log, knowing the
  requests before it; \<open>None\<close> is a failed transport (\<open>RequestException\<close>). The authorisation
  header is not modelled.
\<close>

record world =
  requests :: "(string \<times> pyval) list"
  heap :: "nat \<Rightarrow> (string \<times> pyval) list"
  next_free :: nat

type_synonym server = "(string \<times> pyval) list \<Rightarrow> response option"

text \<open>
  \<^verbatim>\<open>def get(self, url, params=None, **kwargs):
    try:
        return self.session().get(url, params=params, **kwargs)
    except getattr(requests.exceptions, 'RequestException') as inst:
        self.module.fail_json(msg=inst.message)\<close>
  An exception of Python 3 has no attribute \<open>message\<close>, so the handler itself ends with
  \<open>AttributeError\<close>.
\<close>

definition session_get :: "server \<Rightarrow> string \<Rightarrow> nat option \<Rightarrow> world \<Rightarrow> (error + response) \<times> world" where
  "session_get srv url params w =
     (let sent = (case params of None \<Rightarrow> PNone | Some a \<Rightarrow> PDict (heap w a));
          w' = w\<lparr>requests := requests w @ [(url, sent)]\<rparr>
      in case srv (requests w') of
           None \<Rightarrow> (Inl AttributeError, w')
         | Some response \<Rightarrow> (Inr response, w'))"

text \<open>
  The decoder of \<open>hcp_terraform_project.py\<close> (the modules \<open>hcp_terraform_var.py\<close>,
  \<open>hcp_terraform_varset.py\<close> and \<open>hcp_terraform_workspace.py\<close> have the same):
  \<^verbatim>\<open>def return_if_object(module, response, allow_not_found=False):
    if allow_not_found and response.status_code == 404:
        return None
    if response.status_code == 204:
        return None
    if allow_not_found and response.status_code == 403:
        return None
    try:
        result = response.json()
    except getattr(json.decoder, 'JSONDecodeError', ValueError) as inst:
        module.fail_json(msg=f'Invalid JSON response with error: {str(inst)}')
    if navigate_hash(result, ['errors']):
        module.fail_json(msg=navigate_hash(result, ['errors']))
    return result\<close>
\<close>

definition return_if_object :: "response \<Rightarrow> bool \<Rightarrow> error + pyval" where
  "return_if_object response allow_not_found =
     (if allow_not_found \<and> status_code response = 404 then Inr PNone
      else if status_code response = 204 then Inr PNone
      else if allow_not_found \<and> status_code response = 403 then Inr PNone
      else
        (case json response of
           None \<Rightarrow> Inl (FailJson InvalidJsonResponse)
         | Some result \<Rightarrow>
             (case navigate_hash result [''errors''] PNone of
                Inl e \<Rightarrow> Inl e
              | Inr errors \<Rightarrow>
                  if truthy errors then Inl (FailJson (ApiErrors errors)) else Inr result)))"

text \<open>\<open>a + b\<close>: concatenation of two lists or of two texts, the sum of two numbers (a
  boolean counts as 0 or 1); every other pair is a \<open>TypeError\<close>.\<close>

fun as_number :: "pyval \<Rightarrow> int option" where
  "as_number (PInt i) = Some i"
| "as_number (PBool b) = Some (if b then 1 else 0)"
| "as_number _ = None"

fun py_add :: "pyval \<Rightarrow> pyval \<Rightarrow> error + pyval" where
  "py_add (PList a) (PList b) = Inr (PList (a @ b))"
| "py_add (PStr a) (PStr b) = Inr (PStr (a @ b))"
| "py_add a b =
     (case (as_number a, as_number b) of
        (Some x, Some y) \<Rightarrow> Inr (PInt (x + y))
      | _ \<Rightarrow> Inl TypeError)"

text \<open>
  \<^verbatim>\<open>def list(self, url, callback, params=None, array_name='data',
         pageToken='next-page', **kwargs):
    resp = callback(self.module, self.get(url, params, **kwargs))
    items = resp.get(array_name) if resp.get(array_name) else []
    while navigate_hash(resp, ['meta', 'pagination', pageToken]):
        if params:
            params['page[number]'] = navigate_hash(resp, ['meta', 'pagination', pageToken])
        else:
            params = {'page[number]': navigate_hash(resp, ['meta', 'pagination', pageToken])}

        resp = callback(self.module, self.get(url, params, **kwargs))
        if resp.get(array_name):
            items = items + resp.get(array_name)
    return items\<close>
  \<open>list_pages\<close> is the \<open>while\<close> loop, with the local variables \<open>params\<close>, \<open>resp\<close> and \<open>items\<close>
  as arguments, and \<open>list_step\<close> is one evaluation of its condition and body: \<open>Inl\<close> when the
  loop is left (the condition is false, or an exception is raised), \<open>Inr\<close> with the new values
  of the variables when the body has run. Nothing bounds the number of pages, so the loop
  need not end: the result of \<open>list_pages\<close> is \<open>None\<close> when it does not.
\<close>

definition list_step ::
  "server \<Rightarrow> string \<Rightarrow> (response \<Rightarrow> error + pyval) \<Rightarrow> string \<Rightarrow> string \<Rightarrow>
     nat option \<Rightarrow> pyval \<Rightarrow> pyval \<Rightarrow> world \<Rightarrow>
     ((error + pyval) \<times> world) + (nat option \<times> pyval \<times> pyval \<times> world)"
where
  "list_step srv url callback array_name pageToken params resp items w =
     (case navigate_hash resp [''meta'', ''pagination'', pageToken] PNone of
        Inl e \<Rightarrow> Inl (Inl e, w)
      | Inr cursor \<Rightarrow>
          if \<not> truthy cursor then Inl (Inr items, w)
          else
            (let (params', w1) =
                   (case params of
                      None \<Rightarrow>
                        (Some (next_free w),
                         w\<lparr>heap := (heap w)(next_free w := [(''page[number]'', cursor)]),
                           next_free := Suc (next_free w)\<rparr>)
                    | Some a \<Rightarrow>
                        if heap w a \<noteq> [] then
                          (Some a,
                           w\<lparr>heap := (heap w)(a := dict_set (heap w a) ''page[number]'' cursor)\<rparr>)
                        else
                          (Some (next_free w),
                           w\<lparr>heap := (heap w)(next_free w := [(''page[number]'', cursor)]),
                             next_free := Suc (next_free w)\<rparr>))
             in case session_get srv url params' w1 of
                  (Inl e, w2) \<Rightarrow> Inl (Inl e, w2)
                | (Inr response, w2) \<Rightarrow>
                    (case callback response of
                       Inl e \<Rightarrow> Inl (Inl e, w2)
                     | Inr resp' \<Rightarrow>
                         (case py_get resp' array_name of
                            Inl e \<Rightarrow> Inl (Inl e, w2)
                          | Inr data \<Rightarrow>
                              if truthy data then
                                (case py_add items data of
                                   Inl e \<Rightarrow> Inl (Inl e, w2)
                                 | Inr items' \<Rightarrow> Inr (params', resp', items', w2))
                              else Inr (params', resp', items, w2)))))"

partial_function (option) list_pages ::
  "server \<Rightarrow> string \<Rightarrow> (response \<Rightarrow> error + pyval) \<Rightarrow> string \<Rightarrow> string \<Rightarrow>
     nat option \<Rightarrow> pyval \<Rightarrow> pyval \<Rightarrow> world \<Rightarrow> ((error + pyval) \<times> world) option"
where
  "list_pages srv url callback array_name pageToken params resp items w =
     (case list_step srv url callback array_name pageToken params resp items w of
        Inl done \<Rightarrow> Some done
      | Inr (params', resp', items', w') \<Rightarrow>
          list_pages srv url callback array_name pageToken params' resp' items' w')"

definition session_list ::
  "server \<Rightarrow> string \<Rightarrow> (response \<Rightarrow> error + pyval) \<Rightarrow> nat option \<Rightarrow> string \<Rightarrow> string \<Rightarrow>
     world \<Rightarrow> ((error + pyval) \<times> world) option"
where
  "session_list srv url callback params array_name pageToken w =
     (case session_get srv url params w of
        (Inl e, w1) \<Rightarrow> Some (Inl e, w1)
      | (Inr response, w1) \<Rightarrow>
          (case callback response of
             Inl e \<Rightarrow> Some (Inl e, w1)
           | Inr resp \<Rightarrow>
               (case py_get resp array_name of
                  Inl e \<Rightarrow> Some (Inl e, w1)
                | Inr data \<Rightarrow>
                    list_pages srv url callback array_name pageToken params resp
                      (if truthy data then data else PList []) w1)))"

section \<open>Lookup by natural key\<close>

text \<open>\<open>len(x)\<close> and \<open>x.pop(0)\<close>. Only lists, texts and dictionaries have a length; only a
  list can pop its first element (a text has no \<open>pop\<close>, and no dictionary here has the key 0).\<close>

fun py_len :: "pyval \<Rightarrow> error + nat" where
  "py_len (PList xs) = Inr (length xs)"
| "py_len (PStr s) = Inr (length s)"
| "py_len (PDict m) = Inr (length m)"
| "py_len _ = Inl TypeError"

fun py_pop0 :: "pyval \<Rightarrow> error + pyval" where
  "py_pop0 (PList (x # xs)) = Inr x"
| "py_pop0 (PList []) = Inl IndexError"
| "py_pop0 (PDict m) = Inl KeyError"
| "py_pop0 _ = Inl AttributeError"

text \<open>
  The lookup of \<open>hcp_terraform_project.py\<close>; \<open>name\<close> is \<open>module.params.get('name')\<close>.
  \<^verbatim>\<open>def fetch_by_name(module, link):
    session = HcpSession(module)
    params = {
        'filter[names]': module.params.get('name')
    }
    return_list = session.list(link, return_if_object, params=params)
    if len(return_list) > 1:
        module.fail_json(msg=f'Expected 1 result, found: {len(return_list)}: {str(return_list)}')
    if return_list:
        return return_list.pop(0)
    return None\<close>
\<close>

definition fetch_by_name ::
  "server \<Rightarrow> pyval \<Rightarrow> string \<Rightarrow> world \<Rightarrow> ((error + pyval) \<times> world) option"
where
  "fetch_by_name srv name link w =
     (let params = next_free w;
          w0 = w\<lparr>heap := (heap w)(params := [(''filter[names]'', name)]),
                 next_free := Suc (next_free w)\<rparr>
      in case session_list srv link (\<lambda>response. return_if_object response False)
                (Some params) ''data'' ''next-page'' w0 of
           None \<Rightarrow> None
         | Some (Inl e, w') \<Rightarrow> Some (Inl e, w')
         | Some (Inr return_list, w') \<Rightarrow>
             (case py_len return_list of
                Inl e \<Rightarrow> Some (Inl e, w')
              | Inr n \<Rightarrow>
                  if n > 1 then Some (Inl (FailJson (ExpectedOneResult n return_list)), w')
                  else if truthy return_list then Some (py_pop0 return_list, w')
                  else Some (Inr PNone, w')))"

text \<open>
  The lookup of \<open>hcp_terraform_var.py\<close>; \<open>key\<close> and \<open>category\<close> are the module parameters of
  these names, both texts.
  \<^verbatim>\<open>def fetch_by_key(module, link):
    session = HcpSession(module)
    return_list = return_if_object(module, session.get(link))
    for var in return_list['data']:
        if var.get('attributes', {}).get('key') == module.params['key'] and var.get('attributes', {}).get('category') == module.params['category']:
            return var
    return None\<close>
  \<open>find_var\<close> is the loop.
\<close>

fun py_get_default :: "pyval \<Rightarrow> string \<Rightarrow> pyval \<Rightarrow> error + pyval" where
  "py_get_default (PDict m) key dflt = Inr (case map_of m key of None \<Rightarrow> dflt | Some v \<Rightarrow> v)"
| "py_get_default _ key dflt = Inl AttributeError"

fun find_var :: "string \<Rightarrow> string \<Rightarrow> pyval list \<Rightarrow> error + pyval" where
  "find_var key category [] = Inr PNone"
| "find_var key category (var # rest) =
     (case py_get_default var ''attributes'' (PDict []) of
        Inl e \<Rightarrow> Inl e
      | Inr attributes \<Rightarrow>
          (case py_get attributes ''key'' of
             Inl e \<Rightarrow> Inl e
           | Inr k \<Rightarrow>
               if k = PStr key then
                 (case py_get attributes ''category'' of
                    Inl e \<Rightarrow> Inl e
                  | Inr c \<Rightarrow> if c = PStr category then Inr var else find_var key category rest)
               else find_var key category rest))"

definition fetch_by_key ::
  "server \<Rightarrow> string \<Rightarrow> string \<Rightarrow> string \<Rightarrow> world \<Rightarrow> (error + pyval) \<times> world"
where
  "fetch_by_key srv key category link w =
     (case session_get srv link None w of
        (Inl e, w') \<Rightarrow> (Inl e, w')
      | (Inr response, w') \<Rightarrow>
          (case return_if_object response False of
             Inl e \<Rightarrow> (Inl e, w')
           | Inr return_list \<Rightarrow>
               (case py_getitem return_list ''data'' of
                  Inl e \<Rightarrow> (Inl e, w')
                | Inr data \<Rightarrow>
                    (case py_iter data of
                       Inl e \<Rightarrow> (Inl e, w')
                     | Inr vars \<Rightarrow> (find_var key category vars, w')))))"

section \<open>Fixtures\<close>

text \<open>
  A fake endpoint for the examples: it answers the first request with the first reply of a
  script, the second with the second, and so on, whatever the URL and the parameters; once
  the script is used up the transport fails.
\<close>

definition scripted :: "response list \<Rightarrow> server" where
  "scripted replies log =
     (if log \<noteq> [] \<and> length log \<le> length replies then Some (replies ! (length log - 1))
      else None)"

text \<open>A session that has sent nothing yet and holds no dictionary.\<close>

definition fresh :: world where
  "fresh = \<lparr>requests = [], heap = (\<lambda>a. []), next_free = 0\<rparr>"


text \<open>The page envelope of the service: \<open>{"data": items, "meta": {"pagination":
  {"next-page": cursor}}}\<close>, in a response with status 200.\<close>

definition page :: "pyval list \<Rightarrow> pyval \<Rightarrow> response" where
  "page items cursor =
     \<lparr>status_code = 200,
      json = Some (PDict [(''data'', PList items),
                          (''meta'', PDict [(''pagination'', PDict [(''next-page'', cursor)])])])\<rparr>"

text \<open>
  An instance of \<open>to_text\<close> for the examples: what Ansible's \<open>to_text\<close> returns under Python 3
  on a decoded JSON value. The text of a text is the text itself; for every other value it
  is \<open>str(v)\<close>: \<open>None\<close>, \<open>True\<close>, \<open>False\<close>, the decimal digits of an integer, and Python's \<open>repr\<close> of
  a list or a dictionary. \<open>repr\<close> of a text puts it in single quotes (in double quotes when
  the text has a single quote and no double quote) and escapes the backslash, the quote
  and the control characters; characters outside ASCII are taken to be printable, which
  \<open>repr\<close> keeps as they are. This instance never raises.
\<close>

fun dec_text :: "nat \<Rightarrow> string" where
  "dec_text n =
     (if n < 10 then [''0123456789'' ! n]
      else dec_text (n div 10) @ [''0123456789'' ! (n mod 10)])"

definition int_text :: "int \<Rightarrow> string" where
  "int_text i = (if i < 0 then CHR ''-'' # dec_text (nat (- i)) else dec_text (nat i))"

definition hex_digit :: "nat \<Rightarrow> char" where
  "hex_digit n = ''0123456789abcdef'' ! (n mod 16)"

definition repr_char :: "char \<Rightarrow> char \<Rightarrow> string" where
  "repr_char quote c =
     (if c = CHR 0x5C then [CHR 0x5C, CHR 0x5C]
      else if c = quote then [CHR 0x5C, quote]
      else if c = CHR 0x0A then [CHR 0x5C, CHR ''n'']
      else if c = CHR 0x0D then [CHR 0x5C, CHR ''r'']
      else if c = CHR 0x09 then [CHR 0x5C, CHR ''t'']
      else if (of_char c :: nat) < 32 \<or> (of_char c :: nat) = 127
        then [CHR 0x5C, CHR ''x'', hex_digit (of_char c div 16), hex_digit (of_char c)]
      else [c])"

definition repr_text :: "string \<Rightarrow> string" where
  "repr_text s =
     (let quote = (if CHR 0x27 \<in> set s \<and> CHR 0x22 \<notin> set s then CHR 0x22 else CHR 0x27)
      in quote # concat (map (repr_char quote) s) @ [quote])"

fun py_repr :: "pyval \<Rightarrow> string"
  and repr_items :: "pyval list \<Rightarrow> string"
  and repr_entries :: "(string \<times> pyval) list \<Rightarrow> string"
where
  "py_repr PNone = ''None''"
| "py_repr (PBool b) = (if b then ''True'' else ''False'')"
| "py_repr (PInt i) = int_text i"
| "py_repr (PStr s) = repr_text s"
| "py_repr (PList xs) = ''['' @ repr_items xs @ '']''"
| "py_repr (PDict m) = ''{'' @ repr_entries m @ ''}''"
| "repr_items [] = []"
| "repr_items [x] = py_repr x"
| "repr_items (x # y # xs) = py_repr x @ '', '' @ repr_items (y # xs)"
| "repr_entries [] = []"
| "repr_entries [(k, v)] = repr_text k @ '': '' @ py_repr v"
| "repr_entries ((k, v) # kv # m) =
     repr_text k @ '': '' @ py_repr v @ '', '' @ repr_entries (kv # m)"

fun json_text :: to_text_fn where
  "json_text (PStr s) = Some s"
| "json_text v = Some (py_repr v)"

text \<open>The entries of a dictionary of query parameters other than \<open>page[number]\<close>, in
  their order.\<close>

definition other_entries :: "(string \<times> pyval) list \<Rightarrow> (string \<times> pyval) list" where
  "other_entries m = filter (\<lambda>kv. fst kv \<noteq> ''page[number]'') m"


section \<open>Shapes of trees\<close>

text \<open>
  \<open>no_difference\<close>: the comparison of two values returns, and what it returns is falsy; this
  is the test \<open>not self._compare_value(req_item, resp_item)\<close> of the list comparison.
\<close>

definition no_difference :: "to_text_fn \<Rightarrow> pyval \<Rightarrow> pyval \<Rightarrow> bool" where
  "no_difference tt req_value resp_value =
     (case compare_value tt req_value resp_value of
        Inl e \<Rightarrow> False
      | Inr diff \<Rightarrow> \<not> truthy diff)"

text \<open>
  The list rule as the specification words it: the desired elements, in their order, that
  no element of the actual list compares equal to.
\<close>

definition unmatched :: "to_text_fn \<Rightarrow> pyval list \<Rightarrow> pyval list \<Rightarrow> pyval list" where
  "unmatched tt desired actual =
     filter (\<lambda>x. \<not> (\<exists>r\<in>set actual. no_difference tt x r)) desired"

text \<open>\<open>distinct_keys\<close>: no dictionary of the tree has a key twice, as in every Python value.\<close>

function distinct_keys :: "pyval \<Rightarrow> bool" where
  "distinct_keys (PList xs) = (\<forall>x\<in>set xs. distinct_keys x)"
| "distinct_keys (PDict m) = (distinct (map fst m) \<and> (\<forall>kv\<in>set m. distinct_keys (snd kv)))"
| "distinct_keys PNone = True"
| "distinct_keys (PBool b) = True"
| "distinct_keys (PInt i) = True"
| "distinct_keys (PStr s) = True"
  by pat_completeness auto
termination
proof (relation "measure size", goal_cases)
  case 1
  show ?case by simp
next
  case (2 xs x)
  from size_item_of_list [OF 2] show ?case by simp
next
  case (3 m kv)
  from size_value_of_dict [of "fst kv" "snd kv" m] 3 show ?case by simp
qed

section \<open>Properties of navigate_hash\<close>

declare navigate_hash.simps [simp del]

lemma navigate_hash_falsy: "\<not> truthy source \<Longrightarrow> navigate_hash source path d = Inr PNone"
  by (simp add: navigate_hash.simps)

lemma navigate_hash_Nil: "truthy source \<Longrightarrow> navigate_hash source [] d = Inl IndexError"
  by (simp add: navigate_hash.simps)

lemma navigate_hash_Cons:
  "truthy source \<Longrightarrow> navigate_hash source (key # path') d =
     (case py_contains source key of
        Inl e \<Rightarrow> Inl e
      | Inr False \<Rightarrow> Inr d
      | Inr True \<Rightarrow>
          (case py_getitem source key of
             Inl e \<Rightarrow> Inl e
           | Inr result \<Rightarrow>
               if path' \<noteq> [] then navigate_hash result path' d else Inr result))"
  by (subst navigate_hash.simps) simp

lemma key_missing_returns_default:
  "key_missing source path \<Longrightarrow> navigate_hash source path d = Inr d"
proof (induction source path arbitrary: d rule: key_missing.induct)
  case (1 m key path')
  then show ?case by (auto simp: navigate_hash_Cons split: option.splits)
qed (auto simp: navigate_hash_Cons)

lemma not_key_missing_ignores_default:
  "\<not> key_missing source path \<Longrightarrow> navigate_hash source path d = navigate_hash source path d'"
proof (induction source path arbitrary: d d' rule: key_missing.induct)
  case (1 m key path')
  then show ?case
    by (cases "m = []") (auto simp: navigate_hash_Cons navigate_hash_falsy split: option.splits)
next
  case (2 xs key path')
  then show ?case by (cases "xs = []") (auto simp: navigate_hash_Cons navigate_hash_falsy)
next
  case (3 s key path')
  then show ?case by (cases "s = []") (auto simp: navigate_hash_Cons navigate_hash_falsy)
qed (simp_all add: navigate_hash.simps split: list.splits)

text \<open>
  Claim C9, as amended. \<open>navigate_hash\<close> returns \<open>None\<close>, not the supplied default, whenever
  the source is falsy, for every path and every default. The supplied default is what comes
  back (whatever default is supplied) exactly when a key along the path is missing from a
  non-empty container the walk reaches: a dictionary without that key, a list that does not
  hold it, or a text of which it is no substring.
\<close>

theorem navigate_hash_default:
  "(\<not> truthy source \<longrightarrow> navigate_hash source path dflt = Inr PNone) \<and>
   ((\<forall>d. navigate_hash source path d = Inr d) \<longleftrightarrow> key_missing source path)"
proof (intro conjI impI iffI)
  assume "\<not> truthy source"
  then show "navigate_hash source path dflt = Inr PNone" by (rule navigate_hash_falsy)
next
  assume all: "\<forall>d. navigate_hash source path d = Inr d"
  show "key_missing source path"
  proof (rule ccontr)
    assume "\<not> key_missing source path"
    then have "navigate_hash source path PNone = navigate_hash source path (PBool True)"
      by (rule not_key_missing_ignores_default)
    with all show False by simp
  qed
next
  assume "key_missing source path"
  then show "\<forall>d. navigate_hash source path d = Inr d"
    by (simp add: key_missing_returns_default)
qed

text \<open>The theorem at an empty dictionary, and at the input of the repository's test
  \<open>test_default\<close>.\<close>

theorem navigate_hash_default_witness:
  "\<not> truthy (PDict []) \<and>
   navigate_hash (PDict []) [''meta'', ''pagination''] (PStr ''not found'') = Inr PNone \<and>
   key_missing (PDict [(''key'', PStr ''value'')]) [''key'', ''key2''] \<and>
   navigate_hash (PDict [(''key'', PStr ''value'')]) [''key'', ''key2''] (PStr ''not found'')
     = Inr (PStr ''not found'')"
  using navigate_hash_default [of "PDict []" "[''meta'', ''pagination'']" "PStr ''not found''"]
    navigate_hash_default [of "PDict [(''key'', PStr ''value'')]" "[''key'', ''key2'']" "PNone"]
  by (simp add: navigate_hash.simps)

text \<open>
  Claim C9 as the specification words it fails: in \<open>test_default\<close> the default is returned
  although no dictionary along the path lacks a key; the walk ends in the text \<open>value\<close>.
\<close>

theorem navigate_hash_default_not_only_mappings:
  "navigate_hash (PDict [(''key'', PStr ''value'')]) [''key'', ''key2''] (PStr ''not found'')
     = Inr (PStr ''not found'') \<and>
   \<not> key_missing_from_mapping (PDict [(''key'', PStr ''value'')]) [''key'', ''key2'']"
  by (simp add: navigate_hash.simps)

section \<open>Properties of the difference\<close>

declare compare_value.simps [simp del]

lemma compare_value_None [simp]: "compare_value tt req_value PNone = Inr PNone"
  by (simp add: compare_value.simps)

lemma hide_unicode_simps [simp]:
  "hide_unicode (Inr d) = Inr d"
  "hide_unicode (Inl UnicodeError) = Inr PNone"
  "e \<noteq> UnicodeError \<Longrightarrow> hide_unicode (Inl e) = Inl e"
  by (simp_all add: hide_unicode_def)

lemma compare_value_PBool:
  "resp_value \<noteq> PNone \<Longrightarrow>
     compare_value tt (PBool b) resp_value = Inr (compare_boolean tt b resp_value)"
  by (simp add: compare_value.simps)

lemma compare_value_PList:
  "resp_value \<noteq> PNone \<Longrightarrow>
     compare_value tt (PList req_list) resp_value = hide_unicode (compare_lists tt req_list resp_value)"
  by (simp add: compare_value.simps [of tt "PList req_list"] compare_lists_def)

lemma compare_value_PDict:
  "resp_value \<noteq> PNone \<Longrightarrow>
     compare_value tt (PDict req_dict) resp_value = hide_unicode (compare_dicts tt req_dict resp_value)"
  by (simp add: compare_value.simps [of tt "PDict req_dict"] compare_dicts_def)

lemma compare_value_PStr:
  "resp_value \<noteq> PNone \<Longrightarrow>
     compare_value tt (PStr x) resp_value =
       (case tt (PStr x) of
          None \<Rightarrow> Inr PNone
        | Some s \<Rightarrow>
            (case tt resp_value of
               None \<Rightarrow> Inr PNone
             | Some s' \<Rightarrow> Inr (if s \<noteq> s' then PStr x else PNone)))"
  by (simp add: compare_value.simps [of tt "PStr x"] split: option.splits)

lemma compare_value_PInt:
  "resp_value \<noteq> PNone \<Longrightarrow>
     compare_value tt (PInt x) resp_value =
       (case tt (PInt x) of
          None \<Rightarrow> Inr PNone
        | Some s \<Rightarrow>
            (case tt resp_value of
               None \<Rightarrow> Inr PNone
             | Some s' \<Rightarrow> Inr (if s \<noteq> s' then PInt x else PNone)))"
  by (simp add: compare_value.simps [of tt "PInt x"] split: option.splits)

lemma compare_value_PNone_req: "compare_value tt PNone resp_value = Inr PNone"
  by (simp add: compare_value.simps [of tt PNone] split: option.splits)

subsection \<open>Which exceptions can come out\<close>

lemma convert_error:
  "convert_value tt v = Inl e \<Longrightarrow> e = UnicodeError"
  "convert_list tt xs acc = Inl e \<Longrightarrow> e = UnicodeError"
  "convert_dict tt m dacc = Inl e \<Longrightarrow> e = UnicodeError"
  by (induction tt v and tt xs acc and tt m dacc
      rule: convert_value_convert_list_convert_dict.induct)
    (auto split: sum.splits option.splits)

lemma convert_iterable: "convert_value tt v = Inr c \<Longrightarrow> \<exists>items. py_iter c = Inr items"
  by (cases v) (auto split: sum.splits option.splits)

lemma convert_PList: "convert_value tt (PList xs) = Inr c \<Longrightarrow> \<exists>ys. c = PList ys"
  by (auto split: sum.splits)

lemma lists_find_error:
  "lists_find cmp y rs f = Inl e \<Longrightarrow> \<exists>r\<in>set rs. cmp y r = Inl e"
  by (induction rs arbitrary: f) (auto split: sum.splits)

lemma lists_loop_error:
  "lists_loop cmp ys resp d = Inl e \<Longrightarrow> py_iter resp = Inr rs \<Longrightarrow>
     \<exists>y\<in>set ys. \<exists>r\<in>set rs. cmp y r = Inl e"
  by (induction ys arbitrary: d) (auto split: sum.splits dest: lists_find_error)

lemma dicts_loop_error:
  "dicts_loop cmp m resp d = Inl e \<Longrightarrow>
     e = AttributeError \<or> (\<exists>(k, v)\<in>set m. \<exists>r. cmp v r = Inl e)"
proof (induction m arbitrary: d)
  case (Cons kv m)
  obtain k v where kv: "kv = (k, v)" by (cases kv)
  show ?case
  proof (cases resp)
    case (PDict n)
    with Cons.prems kv Cons.IH show ?thesis
      by (auto split: sum.splits if_splits option.splits)
  qed (use Cons.prems kv in auto)
qed simp

lemma compare_lists_with_Inl:
  assumes "compare_lists_with cmp tt req_list resp = Inl e" and "e \<noteq> UnicodeError"
  shows "\<exists>ys c rs. convert_value tt (PList req_list) = Inr (PList ys) \<and>
           convert_value tt resp = Inr c \<and> py_iter c = Inr rs \<and>
           (\<exists>y\<in>set ys. \<exists>r\<in>set rs. cmp y r = Inl e)"
proof (cases "convert_value tt (PList req_list)")
  case (Inl e')
  with assms show ?thesis
    by (simp add: compare_lists_with_def convert_error(1) [OF Inl] del: convert_value.simps)
next
  case (Inr c0)
  from convert_PList [OF Inr] obtain ys where c0: "c0 = PList ys" by blast
  show ?thesis
  proof (cases "convert_value tt resp")
    case (Inl e')
    with assms Inr show ?thesis
      by (simp add: compare_lists_with_def convert_error(1) [OF Inl] del: convert_value.simps)
  next
    case c: (Inr c)
    from convert_iterable [OF c] obtain rs where rs: "py_iter c = Inr rs" by blast
    from assms(1) Inr c c0 have "lists_loop cmp ys c [] = Inl e"
      by (simp add: compare_lists_with_def del: convert_value.simps)
    from lists_loop_error [OF this rs] Inr c c0 rs show ?thesis by blast
  qed
qed

lemma compare_value_error: "compare_value tt req resp = Inl e \<Longrightarrow> e = AttributeError"
proof (induction tt req resp arbitrary: e rule: compare_value.induct)
  case (1 tt req_value resp_value)
  from "1.prems" have resp: "resp_value \<noteq> PNone" by (auto simp: compare_value.simps)
  show ?case
  proof (cases req_value)
    case (PList req_list)
    with "1.prems" resp have h: "hide_unicode (compare_lists tt req_list resp_value) = Inl e"
      by (simp add: compare_value_PList)
    then have ne: "e \<noteq> UnicodeError"
      and cl: "compare_lists_with (\<lambda>a b. compare_value tt a b) tt req_list resp_value = Inl e"
      by (auto simp: hide_unicode_def compare_lists_def split: sum.splits if_splits)
    from compare_lists_with_Inl [OF cl ne] obtain ys y r
      where "convert_value tt (PList req_list) = Inr (PList ys)" "y \<in> set ys"
        "compare_value tt y r = Inl e"
      by blast
    with "1.IH"(1) [OF resp PList] show ?thesis by blast
  next
    case (PDict req_dict)
    with "1.prems" resp have h: "hide_unicode (compare_dicts tt req_dict resp_value) = Inl e"
      by (simp add: compare_value_PDict)
    then have cd: "dicts_loop (\<lambda>a b. compare_value tt a b) req_dict resp_value [] = Inl e"
      by (auto simp: hide_unicode_def compare_dicts_def compare_dicts_with_def
          split: sum.splits if_splits)
    from dicts_loop_error [OF cd] "1.IH"(2) [OF resp PDict] show ?thesis by blast
  qed (use "1.prems" resp in
        \<open>auto simp: compare_value_PBool compare_value_PStr compare_value_PInt
           compare_value_PNone_req split: option.splits\<close>)
qed

lemma dicts_loop_error_dict:
  "dicts_loop cmp m (PDict n) d = Inl e \<Longrightarrow>
     \<exists>kv\<in>set m. \<exists>r. map_of n (fst kv) = Some r \<and> r \<noteq> PNone \<and> cmp (snd kv) r = Inl e"
proof (induction m arbitrary: d)
  case (Cons kv m)
  obtain k v where kv: "kv = (k, v)" by (cases kv)
  from Cons.prems kv Cons.IH show ?case
    by (auto split: sum.splits if_splits option.splits)
qed simp

text \<open>The equations that evaluate a comparison of two given trees.\<close>

lemmas difference_eval =
  difference_def compare_value_PDict compare_value_PList compare_value_PStr compare_value_PInt
  compare_value_PBool compare_value_PNone_req compare_dicts_def compare_dicts_with_def
  compare_lists_def compare_lists_with_def compare_boolean_def ascii_upper_def ascii_lower_def
  int_text_def

text \<open>The example instance of \<open>to_text\<close> on a list: \<open>str\<close> of it, as Python prints it.\<close>

lemma json_text_of_list:
  "json_text (PList [PStr ''x'', PInt 12, PDict [(''a'', PNone)], PStr [CHR 0x0A, CHR 0x27]])
     = Some (''['' @ [CHR 0x27] @ ''x'' @ [CHR 0x27] @ '', 12, {'' @ [CHR 0x27] @ ''a'' @ [CHR 0x27]
            @ '': None}, '' @ [CHR 0x22, CHR 0x5C, CHR ''n'', CHR 0x27, CHR 0x22] @ '']'')"
  by (simp add: repr_text_def repr_char_def int_text_def Let_def)

subsection \<open>A dictionary against a value that is none\<close>

text \<open>
  \<open>_compare_dicts\<close> calls \<open>resp_dict.get\<close> without looking at what \<open>resp_dict\<close> is: a desired
  dictionary with an entry against an actual value that is neither \<open>None\<close> nor a dictionary
  ends with \<open>AttributeError\<close>, whatever \<open>to_text\<close> does.
\<close>

lemma compare_value_mapping_against_other:
  assumes "m \<noteq> []" and "resp \<noteq> PNone" and "\<forall>n. resp \<noteq> PDict n"
  shows "compare_value tt (PDict m) resp = Inl AttributeError"
proof -
  obtain k v rest where m: "m = (k, v) # rest" using assms(1) by (cases m) auto
  from assms(2,3) have "py_get resp k = Inl AttributeError" by (cases resp) simp_all
  with m assms(2) show ?thesis
    by (simp add: compare_value_PDict compare_dicts_def compare_dicts_with_def)
qed

text \<open>
  Claim C7 says that the comparison returns on every pair of trees. It does not on the
  request and the response of the module \<open>hcp_terraform_workspace.py\<close> itself:
  \<open>resource_to_request\<close> puts a list of one dictionary under \<open>relationships.project.data\<close>,
  \<open>response_to_hash\<close> puts there what the service returns, a dictionary. The list
  comparison iterates the keys of that dictionary and compares the desired dictionary with
  each key, a text.
\<close>

theorem difference_raises_on_workspace_request:
  "difference json_text
     (PDict [(''attributes'', PDict [(''name'', PStr ''demo''), (''auto-apply'', PBool True)]),
             (''type'', PStr ''workspaces''),
             (''relationships'',
                PDict [(''project'',
                  PDict [(''data'', PList [PDict [(''id'', PStr ''prj-1''),
                                                 (''type'', PStr ''projects'')]])])])])
     (PDict [(''attributes'', PDict [(''name'', PStr ''demo''), (''auto-apply'', PBool True)]),
             (''relationships'',
                PDict [(''project'',
                  PDict [(''data'', PDict [(''id'', PStr ''prj-1''),
                                          (''type'', PStr ''projects'')])])])])
   = Inl AttributeError"
  by (simp add: difference_eval)

subsection \<open>The loops of the list comparison\<close>

lemma lists_find_char:
  "\<forall>r\<in>set rs. \<forall>e. cmp y r = Inl e \<longrightarrow> e = AttributeError \<Longrightarrow>
     lists_find cmp y rs f =
       (if \<exists>r\<in>set rs. cmp y r = Inl AttributeError then Inl AttributeError
        else Inr (f \<or> (\<exists>r\<in>set rs. \<exists>d. cmp y r = Inr d \<and> \<not> truthy d)))"
proof (induction rs arbitrary: f)
  case Nil
  then show ?case by simp
next
  case (Cons r rs)
  from Cons.prems have rest: "\<forall>r\<in>set rs. \<forall>e. cmp y r = Inl e \<longrightarrow> e = AttributeError"
    by simp
  show ?case
  proof (cases "cmp y r")
    case (Inl e)
    with Cons.prems have "e = AttributeError" by simp
    with Inl show ?thesis by simp
  next
    case (Inr d)
    with Cons.IH [OF rest] show ?thesis by auto
  qed
qed

lemma lists_loop_char:
  assumes "py_iter resp = Inr rs"
    and "\<forall>y\<in>set ys. \<forall>r\<in>set rs. \<forall>e. cmp y r = Inl e \<longrightarrow> e = AttributeError"
  shows "lists_loop cmp ys resp acc =
       (if \<exists>y\<in>set ys. \<exists>r\<in>set rs. cmp y r = Inl AttributeError then Inl AttributeError
        else Inr (PList (acc @ filter (\<lambda>y. truthy y \<and>
                    \<not> (\<exists>r\<in>set rs. \<exists>d. cmp y r = Inr d \<and> \<not> truthy d)) ys)))"
  using assms(2)
proof (induction ys arbitrary: acc)
  case Nil
  then show ?case by simp
next
  case (Cons y ys)
  from Cons.prems have y: "\<forall>r\<in>set rs. \<forall>e. cmp y r = Inl e \<longrightarrow> e = AttributeError"
    and rest: "\<forall>y\<in>set ys. \<forall>r\<in>set rs. \<forall>e. cmp y r = Inl e \<longrightarrow> e = AttributeError"
    by simp_all
  have find: "lists_find cmp y rs False =
       (if \<exists>r\<in>set rs. cmp y r = Inl AttributeError then Inl AttributeError
        else Inr (False \<or> (\<exists>r\<in>set rs. \<exists>d. cmp y r = Inr d \<and> \<not> truthy d)))"
    using y by (rule lists_find_char)
  show ?case
  proof (cases "\<exists>r\<in>set rs. cmp y r = Inl AttributeError")
    case True
    with find assms(1) show ?thesis by auto
  next
    case False
    with find assms(1) Cons.IH [OF rest] show ?thesis by auto
  qed
qed


lemma no_difference_iff:
  "no_difference tt y r \<longleftrightarrow> (\<exists>d. compare_value tt y r = Inr d \<and> \<not> truthy d)"
  by (auto simp: no_difference_def split: sum.splits)

lemma compare_lists_char:
  assumes "convert_value tt (PList req_list) = Inr (PList ys)"
    and "convert_value tt resp = Inr c" and "py_iter c = Inr rs"
  shows "compare_lists tt req_list resp =
       (if \<exists>y\<in>set ys. \<exists>r\<in>set rs. compare_value tt y r = Inl AttributeError
        then Inl AttributeError
        else Inr (PList (filter (\<lambda>y. truthy y \<and> \<not> (\<exists>r\<in>set rs. no_difference tt y r)) ys)))"
proof -
  have "\<forall>y\<in>set ys. \<forall>r\<in>set rs. \<forall>e. compare_value tt y r = Inl e \<longrightarrow> e = AttributeError"
    by (auto dest: compare_value_error)
  from lists_loop_char [OF assms(3) this, of "[]"] assms(1,2) show ?thesis
    by (simp add: compare_lists_def compare_lists_with_def no_difference_iff
        del: convert_value.simps)
qed

subsection \<open>Reflexivity\<close>

lemma dict_set_keys: "fst ` set (dict_set m key v) = insert key (fst ` set m)"
  by (induction m key v rule: dict_set.induct) auto

lemma dict_set_distinct: "distinct (map fst m) \<Longrightarrow> distinct (map fst (dict_set m key v))"
proof (induction m key v rule: dict_set.induct)
  case (2 k w m key v)
  then show ?case using dict_set_keys [of m key v] by auto
qed simp

lemma dict_set_values: "kv \<in> set (dict_set m key v) \<Longrightarrow> snd kv = v \<or> kv \<in> set m"
  by (induction m key v rule: dict_set.induct) (auto split: if_splits)

lemma convert_distinct_keys:
  "convert_value tt v = Inr c \<Longrightarrow> distinct_keys c"
  "convert_list tt xs acc = Inr ys \<Longrightarrow> \<forall>a\<in>set acc. distinct_keys a \<Longrightarrow>
     \<forall>y\<in>set ys. distinct_keys y"
  "convert_dict tt m dacc = Inr n \<Longrightarrow> distinct_keys (PDict dacc) \<Longrightarrow> distinct_keys (PDict n)"
proof (induction tt v and tt xs acc and tt m dacc arbitrary: c and ys and n
    rule: convert_value_convert_list_convert_dict.induct)
  case (1 tt "value")
  then show ?case by (auto split: sum.splits)
next
  case (2 tt "value")
  then show ?case by (auto split: sum.splits)
next
  case (5 tt item rest new_list)
  from "5.prems"(1) obtain c where c: "convert_value tt item = Inr c"
    and ys: "convert_list tt rest (new_list @ [c]) = Inr ys"
    by (auto split: sum.splits)
  from "5.IH"(1) [OF c] have "distinct_keys c" .
  with "5.IH"(2) [OF c ys] "5.prems"(2) show ?case by simp
next
  case (7 tt key v rest new_dict)
  from "7.prems"(1) obtain c where c: "convert_value tt v = Inr c"
    and n: "convert_dict tt rest (dict_set new_dict key c) = Inr n"
    by (auto split: sum.splits)
  from "7.IH"(1) [OF c] have dc: "distinct_keys c" .
  have "distinct_keys (PDict (dict_set new_dict key c))"
    using "7.prems"(2) dc dict_set_distinct [of new_dict key c]
    by (auto dest: dict_set_values)
  from "7.IH"(2) [OF c n this] show ?case .
qed (auto split: sum.splits option.splits)

lemma dicts_loop_reflexive:
  assumes "\<forall>kv\<in>set m. map_of n (fst kv) = Some (snd kv) \<and>
             (cmp (snd kv) (snd kv) = Inl AttributeError \<or>
              (\<exists>d. cmp (snd kv) (snd kv) = Inr d \<and> \<not> truthy d))"
  shows "dicts_loop cmp m (PDict n) acc = Inl AttributeError \<or>
         dicts_loop cmp m (PDict n) acc = Inr (PDict acc)"
  using assms
proof (induction m arbitrary: acc)
  case Nil
  then show ?case by simp
next
  case (Cons kv m)
  obtain k v where kv: "kv = (k, v)" by (cases kv)
  from Cons.prems kv have look: "map_of n k = Some v"
    and self: "cmp v v = Inl AttributeError \<or> (\<exists>d. cmp v v = Inr d \<and> \<not> truthy d)"
    and rest: "\<forall>kv\<in>set m. map_of n (fst kv) = Some (snd kv) \<and>
             (cmp (snd kv) (snd kv) = Inl AttributeError \<or>
              (\<exists>d. cmp (snd kv) (snd kv) = Inr d \<and> \<not> truthy d))"
    by simp_all
  from self Cons.IH [OF rest, of acc] look kv show ?case by auto
qed

lemma compare_value_reflexive:
  assumes "tt (PBool True) = Some ''True''" and "tt (PBool False) = Some ''False''"
  shows "distinct_keys R \<Longrightarrow>
    compare_value tt R R = Inl AttributeError \<or>
    (\<exists>d. compare_value tt R R = Inr d \<and> \<not> truthy d)"
proof (induction "size R" arbitrary: R rule: less_induct)
  case less
  show ?case
  proof (cases R)
    case PNone
    then show ?thesis by simp
  next
    case (PBool b)
    with assms show ?thesis
      by (cases b) (simp_all add: compare_value_PBool compare_boolean_def ascii_upper_def ascii_lower_def)
  next
    case (PInt i)
    then show ?thesis by (simp add: compare_value_PInt split: option.splits)
  next
    case (PStr s)
    then show ?thesis by (simp add: compare_value_PStr split: option.splits)
  next
    case (PList xs)
    show ?thesis
    proof (cases "convert_value tt (PList xs)")
      case (Inl e)
      from convert_error(1) [OF Inl] Inl PList show ?thesis
        by (simp add: compare_value_PList compare_lists_def compare_lists_with_def
            del: convert_value.simps)
    next
      case (Inr c)
      from convert_PList [OF Inr] obtain ys where c: "c = PList ys" by blast
      have conv: "convert_value tt (PList xs) = Inr (PList ys)" using Inr c by simp
      have self: "compare_value tt y y = Inl AttributeError \<or> no_difference tt y y"
        if "y \<in> set ys" for y
      proof -
        from size_convert(1) [OF conv] size_item_of_list [OF that] PList
        have "size y < size R" by simp
        moreover from convert_distinct_keys(1) [OF conv] that have "distinct_keys y" by simp
        ultimately show ?thesis using less.hyps [of y] by (auto simp: no_difference_iff)
      qed
      have "compare_lists tt xs (PList xs) = Inl AttributeError \<or>
            compare_lists tt xs (PList xs) = Inr (PList [])"
      proof (cases "\<exists>y\<in>set ys. \<exists>r\<in>set ys. compare_value tt y r = Inl AttributeError")
        case True
        with compare_lists_char [OF conv conv, of ys] show ?thesis by simp
      next
        case False
        with self have "\<forall>y\<in>set ys. \<exists>r\<in>set ys. no_difference tt y r" by blast
        then have "filter (\<lambda>y. truthy y \<and> \<not> (\<exists>r\<in>set ys. no_difference tt y r)) ys = []"
          by (simp add: filter_empty_conv)
        with False compare_lists_char [OF conv conv, of ys] show ?thesis by simp
      qed
      with PList show ?thesis by (auto simp: compare_value_PList)
    qed
  next
    case (PDict m)
    have "map_of m (fst kv) = Some (snd kv) \<and>
             (compare_value tt (snd kv) (snd kv) = Inl AttributeError \<or>
              (\<exists>d. compare_value tt (snd kv) (snd kv) = Inr d \<and> \<not> truthy d))"
      if "kv \<in> set m" for kv
    proof
      from less.prems PDict that show "map_of m (fst kv) = Some (snd kv)" by simp
      from size_value_of_dict [of "fst kv" "snd kv" m] that PDict
      have "size (snd kv) < size R" by simp
      moreover from less.prems PDict that have "distinct_keys (snd kv)" by simp
      ultimately show "compare_value tt (snd kv) (snd kv) = Inl AttributeError \<or>
              (\<exists>d. compare_value tt (snd kv) (snd kv) = Inr d \<and> \<not> truthy d)"
        by (rule less.hyps)
    qed
    then have "dicts_loop (\<lambda>a b. compare_value tt a b) m (PDict m) [] = Inl AttributeError \<or>
         dicts_loop (\<lambda>a b. compare_value tt a b) m (PDict m) [] = Inr (PDict [])"
      by (intro dicts_loop_reflexive) blast
    with PDict show ?thesis
      by (auto simp: compare_value_PDict compare_dicts_def compare_dicts_with_def)
  qed
qed

text \<open>
  Claim C8 says that \<open>difference(R, R)\<close> is empty for every tree \<open>R\<close>. By the lemma above it
  is empty whenever the comparison returns. It does not return on a list that holds a
  dictionary and a text: every request item is compared with every response item, so the
  dictionary is compared with the text, and \<open>_compare_dicts\<close> calls \<open>get\<close> on the text.
\<close>

theorem difference_not_reflexive_on_mixed_list:
  "difference json_text
     (PDict [(''foo'', PList [PDict [(''a'', PStr ''b'')], PStr ''x''])])
     (PDict [(''foo'', PList [PDict [(''a'', PStr ''b'')], PStr ''x''])])
   = Inl AttributeError"
  by (simp add: difference_eval)

subsection \<open>The list rule\<close>

lemma convert_list_map:
  "convert_list tt xs acc =
     (if \<forall>x\<in>set xs. \<exists>c. convert_value tt x = Inr c
      then Inr (acc @ map (\<lambda>x. projr (convert_value tt x)) xs)
      else Inl UnicodeError)"
proof (induction xs arbitrary: acc)
  case Nil
  then show ?case by simp
next
  case (Cons x xs)
  show ?case
  proof (cases "convert_value tt x")
    case (Inl e)
    from convert_error(1) [OF Inl] Inl show ?thesis by (simp del: convert_value.simps)
  next
    case (Inr c)
    with Cons.IH [of "acc @ [c]"] show ?thesis by (simp del: convert_value.simps)
  qed
qed

lemma convert_value_PList:
  "convert_value tt (PList xs) =
     (if \<forall>x\<in>set xs. \<exists>c. convert_value tt x = Inr c
      then Inr (PList (map (\<lambda>x. projr (convert_value tt x)) xs))
      else Inl UnicodeError)"
  by (simp add: convert_list_map del: convert_value.simps(3-))

lemma compare_value_lists:
  "compare_value tt (PList desired) (PList actual) =
     (case convert_value tt (PList desired) of
        Inl e \<Rightarrow> Inr PNone
      | Inr c \<Rightarrow>
          if \<exists>x\<in>set actual. \<exists>e. convert_value tt x = Inl e then Inr PNone
          else if \<exists>y\<in>set (projr (py_iter c)). \<exists>x\<in>set actual.
                    compare_value tt y (projr (convert_value tt x)) = Inl AttributeError
          then Inl AttributeError
          else Inr (PList (filter
                 (\<lambda>y. truthy y \<and>
                    \<not> (\<exists>x\<in>set actual. no_difference tt y (projr (convert_value tt x))))
                 (projr (py_iter c)))))"
proof (cases "convert_value tt (PList desired)")
  case (Inl e)
  from convert_error(1) [OF Inl] Inl show ?thesis
    by (simp add: compare_value_PList compare_lists_def compare_lists_with_def
        del: convert_value.simps)
next
  case (Inr c)
  from convert_PList [OF Inr] obtain ys where c: "c = PList ys" by blast
  have conv: "convert_value tt (PList desired) = Inr (PList ys)" using Inr c by simp
  show ?thesis
  proof (cases "\<exists>x\<in>set actual. \<exists>e. convert_value tt x = Inl e")
    case True
    then have "\<not> (\<forall>x\<in>set actual. \<exists>c. convert_value tt x = Inr c)"
      by (metis Inl_Inr_False)
    then have "convert_value tt (PList actual) = Inl UnicodeError"
      by (simp only: convert_value_PList if_False)
    with conv True show ?thesis
      by (simp add: compare_value_PList compare_lists_def compare_lists_with_def
          del: convert_value.simps)
  next
    case False
    then have all: "\<forall>x\<in>set actual. \<exists>c. convert_value tt x = Inr c"
      by (metis sum.exhaust)
    then have conv': "convert_value tt (PList actual)
        = Inr (PList (map (\<lambda>x. projr (convert_value tt x)) actual))"
      by (simp add: convert_value_PList del: convert_value.simps)
    from compare_lists_char [OF conv conv', of "map (\<lambda>x. projr (convert_value tt x)) actual"]
      False conv c
    show ?thesis
      by (simp add: compare_value_PList del: convert_value.simps)
  qed
qed

text \<open>
  Claim C5, as amended. When the desired value is a list, both lists are first normalized
  to text (\<open>ys\<close> and \<open>rs\<close> are the normalized lists). Unless a comparison of two elements ends
  with \<open>AttributeError\<close>, the difference is the sequence, in desired order, of exactly those
  normalized desired elements that are truthy and that no normalized element of the actual
  list compares equal to. The order of the actual list is irrelevant. With a \<open>to_text\<close> that
  leaves texts as they are,
  \<open>difference({"foo": ["baz", "bar"]}, {"foo": ["baz", "hello"]}) = {"foo": ["bar"]}\<close>.
\<close>

theorem compare_lists_unmatched:
  "(convert_value tt (PList desired) = Inr (PList ys) \<longrightarrow>
    convert_value tt (PList actual) = Inr (PList rs) \<longrightarrow>
      compare_value tt (PList desired) (PList actual) =
        (if \<exists>y\<in>set ys. \<exists>r\<in>set rs. compare_value tt y r = Inl AttributeError
         then Inl AttributeError
         else Inr (PList (filter truthy (unmatched tt ys rs))))) \<and>
   (set actual = set actual' \<longrightarrow>
      compare_value tt (PList desired) (PList actual) =
      compare_value tt (PList desired) (PList actual')) \<and>
   ((\<forall>s. tt (PStr s) = Some s) \<longrightarrow>
      difference tt (PDict [(''foo'', PList [PStr ''baz'', PStr ''bar''])])
                    (PDict [(''foo'', PList [PStr ''baz'', PStr ''hello''])])
        = Inr (PDict [(''foo'', PList [PStr ''bar''])]))"
proof (intro conjI impI)
  assume ys: "convert_value tt (PList desired) = Inr (PList ys)"
    and rs: "convert_value tt (PList actual) = Inr (PList rs)"
  have "filter truthy (unmatched tt ys rs)
      = filter (\<lambda>y. truthy y \<and> \<not> (\<exists>r\<in>set rs. no_difference tt y r)) ys"
    by (simp add: unmatched_def conj_commute)
  with compare_lists_char [OF ys rs, of rs]
  show "compare_value tt (PList desired) (PList actual) =
        (if \<exists>y\<in>set ys. \<exists>r\<in>set rs. compare_value tt y r = Inl AttributeError
         then Inl AttributeError
         else Inr (PList (filter truthy (unmatched tt ys rs))))"
    by (simp add: compare_value_PList)
next
  assume "set actual = set actual'"
  then show "compare_value tt (PList desired) (PList actual) =
      compare_value tt (PList desired) (PList actual')"
    by (simp only: compare_value_lists)
next
  assume "\<forall>s. tt (PStr s) = Some s"
  then show "difference tt (PDict [(''foo'', PList [PStr ''baz'', PStr ''bar''])])
                    (PDict [(''foo'', PList [PStr ''baz'', PStr ''hello''])])
        = Inr (PDict [(''foo'', PList [PStr ''bar''])])"
    by (simp add: difference_eval)
qed

text \<open>The theorem at a desired list with an integer and an empty text in it: the integer
  matches its text, the empty text is not reported.\<close>

theorem compare_lists_unmatched_witness:
  "convert_value json_text (PList [PStr ''baz'', PInt 3, PStr '''', PStr ''bar''])
      = Inr (PList [PStr ''baz'', PStr ''3'', PStr '''', PStr ''bar'']) \<and>
   convert_value json_text (PList [PStr ''3'', PStr ''baz''])
      = Inr (PList [PStr ''3'', PStr ''baz'']) \<and>
   compare_value json_text (PList [PStr ''baz'', PInt 3, PStr '''', PStr ''bar''])
      (PList [PStr ''3'', PStr ''baz'']) = Inr (PList [PStr ''bar'']) \<and>
   set [PStr ''3'', PStr ''baz''] = set [PStr ''baz'', PStr ''3''] \<and>
   compare_value json_text (PList [PStr ''baz'', PInt 3, PStr '''', PStr ''bar''])
      (PList [PStr ''baz'', PStr ''3'']) = Inr (PList [PStr ''bar'']) \<and>
   difference json_text (PDict [(''foo'', PList [PStr ''baz'', PStr ''bar''])])
                    (PDict [(''foo'', PList [PStr ''baz'', PStr ''hello''])])
        = Inr (PDict [(''foo'', PList [PStr ''bar''])])"
  using compare_lists_unmatched [of json_text
      "[PStr ''baz'', PInt 3, PStr '''', PStr ''bar'']"
      "[PStr ''baz'', PStr ''3'', PStr '''', PStr ''bar'']"
      "[PStr ''3'', PStr ''baz'']" "[PStr ''3'', PStr ''baz'']" "[PStr ''baz'', PStr ''3'']"]
  by (simp add: difference_eval unmatched_def no_difference_def insert_commute)

text \<open>
  Claim C5 as the specification words it fails: the empty text of the desired list has no
  equal among the (no) elements of the actual list, and is not in the difference; the loop
  appends an element only \<open>if not found_item and req_item\<close>.
\<close>

theorem compare_lists_drops_empty_text:
  "compare_value json_text (PList [PStr '''']) (PList []) = Inr (PList []) \<and>
   unmatched json_text [PStr ''''] [] = [PStr '''']"
  by (simp add: difference_eval unmatched_def)

subsection \<open>A populated list against nothing\<close>

text \<open>
  Claim C2, as amended. For every non-empty list \<open>l\<close>, \<open>difference({"foo": l}, {})\<close> and
  \<open>difference({}, {"foo": l})\<close> are both empty: a key the actual dictionary lacks is skipped.
  The full desired content comes back against an actual dictionary that has the key with
  an empty list: \<open>difference({"foo": l}, {"foo": []}) = {"foo": l}\<close>, when the elements of \<open>l\<close>
  are truthy and normalization to text leaves \<open>l\<close> as it is (a list of non-empty texts, for
  one).
\<close>

theorem difference_against_empty:
  assumes "l \<noteq> []"
  shows "difference tt (PDict [(''foo'', PList l)]) (PDict []) = Inr (PDict []) \<and>
         difference tt (PDict []) (PDict [(''foo'', PList l)]) = Inr (PDict []) \<and>
         (convert_value tt (PList l) = Inr (PList l) \<longrightarrow> (\<forall>x\<in>set l. truthy x) \<longrightarrow>
            difference tt (PDict [(''foo'', PList l)]) (PDict [(''foo'', PList [])])
              = Inr (PDict [(''foo'', PList l)]))"
proof (intro conjI impI)
  show "difference tt (PDict [(''foo'', PList l)]) (PDict []) = Inr (PDict [])"
    by (simp add: difference_def compare_value_PDict compare_dicts_def compare_dicts_with_def)
  show "difference tt (PDict []) (PDict [(''foo'', PList l)]) = Inr (PDict [])"
    by (simp add: difference_def compare_value_PDict compare_dicts_def compare_dicts_with_def)
  assume conv: "convert_value tt (PList l) = Inr (PList l)" and all: "\<forall>x\<in>set l. truthy x"
  have empty: "convert_value tt (PList []) = Inr (PList [])" by simp
  from all have "filter (\<lambda>y. truthy y \<and> \<not> (\<exists>r\<in>set []. no_difference tt y r)) l = l"
    by (simp add: filter_id_conv)
  with compare_lists_char [OF conv empty, of "[]"]
  have "compare_lists tt l (PList []) = Inr (PList l)" by simp
  with assms
  show "difference tt (PDict [(''foo'', PList l)]) (PDict [(''foo'', PList [])])
              = Inr (PDict [(''foo'', PList l)])"
    by (simp add: difference_def compare_value_PDict compare_dicts_def compare_dicts_with_def
        compare_value_PList)
qed

text \<open>The theorem at the lists of the repository's test
  \<open>test_arrays_strings_with_difference_and_empty_initial\<close>.\<close>

theorem difference_against_empty_witness:
  "[PStr ''baz'', PStr ''hello''] \<noteq> [] \<and>
   convert_value json_text (PList [PStr ''baz'', PStr ''hello''])
     = Inr (PList [PStr ''baz'', PStr ''hello'']) \<and>
   difference json_text (PDict [(''foo'', PList [PStr ''baz'', PStr ''hello''])])
     (PDict [(''foo'', PList [])]) = Inr (PDict [(''foo'', PList [PStr ''baz'', PStr ''hello''])]) \<and>
   difference json_text (PDict [(''foo'', PList [])])
     (PDict [(''foo'', PList [PStr ''baz'', PStr ''hello''])]) = Inr (PDict []) \<and>
   difference json_text (PDict [])
     (PDict [(''foo'', PList [PStr ''baz'', PStr ''hello''])]) = Inr (PDict [])"
  using difference_against_empty [of "[PStr ''baz'', PStr ''hello'']" json_text]
  by (simp add: difference_eval)

text \<open>
  Claim C2 as the specification words it fails: against the empty dictionary the
  difference is empty, not the desired content.
\<close>

theorem difference_against_empty_mapping_is_empty:
  "difference json_text (PDict [(''foo'', PList [PStr ''baz'', PStr ''hello''])]) (PDict [])
     = Inr (PDict []) \<and>
   difference json_text (PDict [(''foo'', PList [PStr ''baz'', PStr ''hello''])]) (PDict [])
     \<noteq> Inr (PDict [(''foo'', PList [PStr ''baz'', PStr ''hello''])])"
  by (simp add: difference_eval)

subsection \<open>The boolean rule\<close>







lemma map_of_dict_set:
  "map_of (dict_set m key v) k = (if k = key then Some v else map_of m k)"
  by (induction m key v rule: dict_set.induct) auto








section \<open>Properties of the paged list\<close>

lemma dict_set_not_Nil [simp]: "dict_set m key v \<noteq> []"
  by (cases m) (auto split: if_splits)

lemma scripted_reply:
  "length log = Suc k \<Longrightarrow> k < length replies \<Longrightarrow> scripted replies log = Some (replies ! k)"
  by (auto simp: scripted_def)

lemma list_pages_done:
  "list_step srv url callback array_name pageToken params resp items w = Inl done \<Longrightarrow>
     list_pages srv url callback array_name pageToken params resp items w = Some done"
  by (subst list_pages.simps) simp

lemma list_pages_next:
  "list_step srv url callback array_name pageToken params resp items w
     = Inr (params', resp', items', w') \<Longrightarrow>
   list_pages srv url callback array_name pageToken params resp items w
     = list_pages srv url callback array_name pageToken params' resp' items' w'"
  by (subst list_pages.simps) simp

lemma list_step_stop:
  "navigate_hash resp [''meta'', ''pagination'', pageToken] PNone = Inr cursor \<Longrightarrow>
   \<not> truthy cursor \<Longrightarrow>
   list_step srv url callback array_name pageToken params resp items w = Inl (Inr items, w)"
  by (simp add: list_step_def)

lemma list_step_next_page:
  assumes "navigate_hash resp [''meta'', ''pagination'', pageToken] PNone = Inr cursor"
    and "truthy cursor"
    and "\<forall>sent. srv (requests w @ [(url, sent)]) = Some reply"
    and "callback reply = Inr env"
    and "py_get env array_name = Inr d"
    and "if truthy d then d = PList xs else xs = []"
  shows "\<exists>params' w2 sent.
           list_step srv url callback array_name pageToken params resp (PList acc) w
             = Inr (params', env, PList (acc @ xs), w2) \<and>
           requests w2 = requests w @ [(url, sent)] \<and>
           py_get sent ''page[number]'' = Inr cursor"
proof (cases params)
  case None
  with assms show ?thesis
    by (cases "truthy d") (simp_all add: list_step_def session_get_def)
next
  case (Some a)
  with assms show ?thesis
    by (cases "truthy d"; cases "heap w a = []")
      (simp_all add: list_step_def session_get_def map_of_dict_set)
qed

lemma list_pages_walk:
  assumes len: "length replies = n" "length envs = n" "length itemss = n" "length cursors = n"
    and served: "\<forall>k<n. \<forall>log. length log = Suc k \<longrightarrow> srv log = Some (replies ! k)"
    and decode: "\<forall>k<n. callback (replies ! k) = Inr (envs ! k)"
    and data: "\<forall>k<n. \<exists>d. py_get (envs ! k) array_name = Inr d \<and>
                 (if truthy d then d = PList (itemss ! k) else itemss ! k = [])"
    and cur: "\<forall>k<n. navigate_hash (envs ! k) [''meta'', ''pagination'', pageToken] PNone
                 = Inr (cursors ! k)"
    and more: "\<forall>k. Suc k < n \<longrightarrow> truthy (cursors ! k)"
    and last: "\<not> truthy (cursors ! (n - 1))"
  shows "j < n \<Longrightarrow> length (requests w) = Suc j \<Longrightarrow>
    \<exists>w' L. list_pages srv url callback array_name pageToken params (envs ! j) (PList acc) w
             = Some (Inr (PList (acc @ concat (drop (Suc j) itemss))), w') \<and>
           requests w' = requests w @ L \<and> length L = n - Suc j \<and>
           (\<forall>i<length L. fst (L ! i) = url \<and>
              py_get (snd (L ! i)) ''page[number]'' = Inr (cursors ! (j + i)))"
proof (induction "n - Suc j" arbitrary: j w params acc)
  case 0
  then have j: "j = n - 1" by simp
  from cur 0(2) have c: "navigate_hash (envs ! j) [''meta'', ''pagination'', pageToken] PNone
      = Inr (cursors ! j)" by simp
  from list_pages_done [OF list_step_stop [OF c]] last j len(3) 0(1)
  show ?case by simp
next
  case (Suc m)
  then have lt: "Suc j < n" by simp
  from cur Suc.prems(1) have c: "navigate_hash (envs ! j) [''meta'', ''pagination'', pageToken] PNone
      = Inr (cursors ! j)" by simp
  from more lt have t: "truthy (cursors ! j)" by simp
  from decode lt have dec: "callback (replies ! Suc j) = Inr (envs ! Suc j)" by simp
  from data lt obtain d where d: "py_get (envs ! Suc j) array_name = Inr d"
    and dd: "if truthy d then d = PList (itemss ! Suc j) else itemss ! Suc j = []"
    by blast
  from served lt Suc.prems(2)
  have reply: "\<forall>sent. srv (requests w @ [(url, sent)]) = Some (replies ! Suc j)" by simp
  have "\<exists>params' w2 sent.
           list_step srv url callback array_name pageToken params (envs ! j) (PList acc) w
             = Inr (params', envs ! Suc j, PList (acc @ itemss ! Suc j), w2) \<and>
           requests w2 = requests w @ [(url, sent)] \<and>
           py_get sent ''page[number]'' = Inr (cursors ! j)"
    using c t reply dec d dd by (rule list_step_next_page)
  then obtain params' w2 sent where
    step: "list_step srv url callback array_name pageToken params (envs ! j)
             (PList acc) w = Inr (params', envs ! Suc j, PList (acc @ itemss ! Suc j), w2)"
    and req: "requests w2 = requests w @ [(url, sent)]"
    and sent: "py_get sent ''page[number]'' = Inr (cursors ! j)"
    by blast
  from req Suc.prems(2) have len2: "length (requests w2) = Suc (Suc j)" by simp
  from Suc.hyps(2) have m: "m = n - Suc (Suc j)" by simp
  from Suc.hyps(1) [OF m lt len2, of params' "acc @ itemss ! Suc j"]
  obtain w' L where
    run: "list_pages srv url callback array_name pageToken params' (envs ! Suc j)
            (PList ((acc @ itemss ! Suc j))) w2
          = Some (Inr (PList ((acc @ itemss ! Suc j) @ concat (drop (Suc (Suc j)) itemss))), w')"
    and L: "requests w' = requests w2 @ L" "length L = n - Suc (Suc j)"
      "\<forall>i<length L. fst (L ! i) = url \<and>
         py_get (snd (L ! i)) ''page[number]'' = Inr (cursors ! (Suc j + i))"
    by blast
  from lt len(3) have "drop (Suc j) itemss = itemss ! Suc j # drop (Suc (Suc j)) itemss"
    by (simp add: Cons_nth_drop_Suc)
  then have items: "(acc @ itemss ! Suc j) @ concat (drop (Suc (Suc j)) itemss)
      = acc @ concat (drop (Suc j) itemss)" by simp
  have idx: "fst (((url, sent) # L) ! i) = url \<and>
      py_get (snd (((url, sent) # L) ! i)) ''page[number]'' = Inr (cursors ! (j + i))"
    if "i < length ((url, sent) # L)" for i
    using that sent L(3) by (cases i) auto
  from list_pages_next [OF step] run items
  have "list_pages srv url callback array_name pageToken params (envs ! j) (PList acc) w
             = Some (Inr (PList (acc @ concat (drop (Suc j) itemss))), w')" by simp
  moreover from req L(1) have "requests w' = requests w @ (url, sent) # L" by simp
  moreover from L(2) lt have "length ((url, sent) # L) = n - Suc j" by simp
  ultimately show ?case using idx by blast
qed

text \<open>
  Claim C3, with the loop condition as the code has it. A service answers the \<open>k\<close>-th request
  with \<open>replies ! k\<close>, which \<open>callback\<close> decodes to the envelope \<open>envs ! k\<close>; the envelope has
  the items \<open>itemss ! k\<close> under \<open>array_name\<close> (a missing key, \<open>null\<close> or an empty array count as
  no items) and the cursor \<open>cursors ! k\<close> at \<open>meta.pagination.pageToken\<close>. When the cursors of
  all pages but the last are truthy and the cursor of the last page is falsy, \<open>list\<close>
  returns, and returns the items of all pages in the order they were fetched; it has sent
  exactly \<open>n\<close> requests, all to \<open>url\<close>, and each request after the first carries the cursor of
  the page before it as \<open>page[number]\<close>.
\<close>

theorem session_list_follows_cursor:
  assumes "requests w = []" and "0 < n"
    and "length replies = n" and "length envs = n" and "length itemss = n"
    and "length cursors = n"
    and "\<forall>k<n. \<forall>log. length log = Suc k \<longrightarrow> srv log = Some (replies ! k)"
    and "\<forall>k<n. callback (replies ! k) = Inr (envs ! k)"
    and "\<forall>k<n. \<exists>d. py_get (envs ! k) array_name = Inr d \<and>
                 (if truthy d then d = PList (itemss ! k) else itemss ! k = [])"
    and "\<forall>k<n. navigate_hash (envs ! k) [''meta'', ''pagination'', pageToken] PNone
                 = Inr (cursors ! k)"
    and "\<forall>k. Suc k < n \<longrightarrow> truthy (cursors ! k)"
    and "\<not> truthy (cursors ! (n - 1))"
  shows "\<exists>w'. session_list srv url callback params array_name pageToken w
                 = Some (Inr (PList (concat itemss)), w') \<and>
              length (requests w') = n \<and>
              (\<forall>k<n. fst (requests w' ! k) = url) \<and>
              (\<forall>k. Suc k < n \<longrightarrow>
                 py_get (snd (requests w' ! Suc k)) ''page[number]'' = Inr (cursors ! k))"
proof -
  let ?sent = "case params of None \<Rightarrow> PNone | Some a \<Rightarrow> PDict (heap w a)"
  let ?w1 = "w\<lparr>requests := [(url, ?sent)]\<rparr>"
  from assms(1,2,7) have get: "session_get srv url params w = (Inr (replies ! 0), ?w1)"
    by (simp add: session_get_def)
  from assms(2,8) have dec: "callback (replies ! 0) = Inr (envs ! 0)" by simp
  from assms(2,9) obtain d where d: "py_get (envs ! 0) array_name = Inr d"
    and dd: "if truthy d then d = PList (itemss ! 0) else itemss ! 0 = []"
    by blast
  from dd have first: "(if truthy d then d else PList []) = PList ([] @ itemss ! 0)"
    by (auto split: if_splits)
  have len1: "length (requests ?w1) = Suc 0" by simp
  from list_pages_walk [OF assms(3-12) assms(2) len1, of url params "[] @ itemss ! 0"]
  obtain w' L where
    run: "list_pages srv url callback array_name pageToken params (envs ! 0)
            (PList ([] @ itemss ! 0)) ?w1
          = Some (Inr (PList (([] @ itemss ! 0) @ concat (drop (Suc 0) itemss))), w')"
    and L: "requests w' = requests ?w1 @ L" "length L = n - Suc 0"
      "\<forall>i<length L. fst (L ! i) = url \<and>
         py_get (snd (L ! i)) ''page[number]'' = Inr (cursors ! (0 + i))"
    by blast
  from assms(2,5) have "itemss = itemss ! 0 # drop (Suc 0) itemss"
    by (cases itemss) simp_all
  then have "([] @ itemss ! 0) @ concat (drop (Suc 0) itemss) = concat itemss"
    by (metis append_Nil concat.simps(2))
  with get dec d first run
  have res: "session_list srv url callback params array_name pageToken w
      = Some (Inr (PList (concat itemss)), w')"
    by (simp add: session_list_def)
  from L(1) have reqs: "requests w' = (url, ?sent) # L" by simp
  from L(2) assms(2) reqs have "length (requests w') = n" by simp
  moreover have "fst (requests w' ! k) = url" if "k < n" for k
    using that reqs L(2,3) by (cases k) auto
  moreover have "py_get (snd (requests w' ! Suc k)) ''page[number]'' = Inr (cursors ! k)"
    if "Suc k < n" for k
    using that reqs L(2,3) by auto
  ultimately show ?thesis using res by blast
qed

text \<open>The equations that run the list on a given script.\<close>

lemmas session_eval =
  session_list_def session_get_def scripted_def page_def fresh_def return_if_object_def
  navigate_hash.simps list_pages.simps list_step_def

text \<open>The example of claim C3: a page of two items with the cursor 2, then a page of one
  item with no cursor, give three items, in order, from two requests.\<close>

theorem session_list_follows_cursor_witness:
  "session_list
     (scripted [page [PStr ''a'', PStr ''b''] (PInt 2), page [PStr ''c''] PNone])
     ''u'' (\<lambda>r. return_if_object r False) None ''data'' ''next-page'' fresh
   = Some (Inr (PList [PStr ''a'', PStr ''b'', PStr ''c'']),
       \<lparr>requests = [(''u'', PNone), (''u'', PDict [(''page[number]'', PInt 2)])],
        heap = (\<lambda>a. [])(0 := [(''page[number]'', PInt 2)]), next_free = 1\<rparr>)"
proof -
  have "\<exists>w'. session_list
      (scripted [page [PStr ''a'', PStr ''b''] (PInt 2), page [PStr ''c''] PNone])
      ''u'' (\<lambda>r. return_if_object r False) None ''data'' ''next-page'' fresh
        = Some (Inr (PList (concat [[PStr ''a'', PStr ''b''], [PStr ''c'']])), w') \<and>
      length (requests w') = Suc (Suc 0) \<and>
      (\<forall>k<Suc (Suc 0). fst (requests w' ! k) = ''u'') \<and>
      (\<forall>k. Suc k < Suc (Suc 0) \<longrightarrow>
         py_get (snd (requests w' ! Suc k)) ''page[number]'' = Inr ([PInt 2, PNone] ! k))"
    by (rule session_list_follows_cursor
        [where replies = "[page [PStr ''a'', PStr ''b''] (PInt 2), page [PStr ''c''] PNone]"
          and envs = "[the (json (page [PStr ''a'', PStr ''b''] (PInt 2))),
                       the (json (page [PStr ''c''] PNone))]"])
      (simp_all add: fresh_def scripted_def page_def return_if_object_def navigate_hash.simps
        less_Suc_eq)
  then show ?thesis by (simp add: session_eval)
qed

text \<open>
  Claim C3 as the specification words it fails: the loop goes on while the cursor is
  truthy, so a cursor that is present and neither \<open>null\<close> nor \<open>false\<close> but falsy, such as the
  number 0 or the empty text, ends the listing; the second page is never requested.
\<close>

theorem session_list_stops_at_falsy_cursor:
  "PInt 0 \<noteq> PNone \<and> PInt 0 \<noteq> PBool False \<and>
   session_list
     (scripted [page [PStr ''a''] (PInt 0), page [PStr ''b''] PNone])
     ''u'' (\<lambda>r. return_if_object r False) None ''data'' ''next-page'' fresh
   = Some (Inr (PList [PStr ''a'']),
       \<lparr>requests = [(''u'', PNone)], heap = (\<lambda>a. []), next_free = 0\<rparr>) \<and>
   PStr [] \<noteq> PNone \<and> PStr [] \<noteq> PBool False \<and>
   session_list
     (scripted [page [PStr ''a''] (PStr []), page [PStr ''b''] PNone])
     ''u'' (\<lambda>r. return_if_object r False) None ''data'' ''next-page'' fresh
   = Some (Inr (PList [PStr ''a'']),
       \<lparr>requests = [(''u'', PNone)], heap = (\<lambda>a. []), next_free = 0\<rparr>)"
  by (simp add: session_eval)

subsection \<open>The caller's dictionary of query parameters\<close>

lemma other_entries_dict_set [simp]:
  "other_entries (dict_set m ''page[number]'' v) = other_entries m"
  by (induction m "''page[number]''" v rule: dict_set.induct) (auto simp: other_entries_def)







subsection \<open>What the decoder lets through\<close>

text \<open>
  The decoder of the resource modules fails on a body that is no JSON document and on a
  document with a truthy \<open>errors\<close> member; it never looks at the status code (204 apart), so
  every other response is decoded, whatever its status. A failure of the decoder ends the
  listing, on the first page and on every later one.
\<close>

lemma return_if_object_invalid_json:
  "json response = None \<Longrightarrow> status_code response \<noteq> 204 \<Longrightarrow>
     return_if_object response False = Inl (FailJson InvalidJsonResponse)"
  by (simp add: return_if_object_def)

lemma return_if_object_errors:
  "json response = Some result \<Longrightarrow> status_code response \<noteq> 204 \<Longrightarrow>
   navigate_hash result [''errors''] PNone = Inr errors \<Longrightarrow> truthy errors \<Longrightarrow>
     return_if_object response False = Inl (FailJson (ApiErrors errors))"
  by (simp add: return_if_object_def)

lemma return_if_object_any_status:
  "json response = Some result \<Longrightarrow> status_code response \<noteq> 204 \<Longrightarrow>
   navigate_hash result [''errors''] PNone = Inr errors \<Longrightarrow> \<not> truthy errors \<Longrightarrow>
     return_if_object response False = Inr result"
  by (simp add: return_if_object_def)

lemma session_list_decode_failure:
  "srv (requests w @ [(url, case params of None \<Rightarrow> PNone | Some a \<Rightarrow> PDict (heap w a))])
     = Some response \<Longrightarrow>
   callback response = Inl e \<Longrightarrow>
   \<exists>w'. session_list srv url callback params array_name pageToken w = Some (Inl e, w')"
  by (simp add: session_list_def session_get_def)

lemma list_step_decode_failure:
  assumes "navigate_hash resp [''meta'', ''pagination'', pageToken] PNone = Inr cursor"
    and "truthy cursor"
    and "\<forall>sent. srv (requests w @ [(url, sent)]) = Some response"
    and "callback response = Inl e"
  shows "\<exists>w'. list_step srv url callback array_name pageToken params resp items w
                 = Inl (Inl e, w')"
proof (cases params)
  case None
  with assms show ?thesis by (simp add: list_step_def session_get_def)
next
  case (Some a)
  with assms show ?thesis
    by (cases "heap w a = []") (simp_all add: list_step_def session_get_def)
qed

text \<open>
  Claim C4 at a listing whose second page is answered with status 500 and a JSON body that
  has no \<open>errors\<close> member: the listing does not fail, it returns the items of the first page.
  The decoders of the \<open>_info\<close> modules call \<open>module.raise_for_status(response)\<close> before decoding;
  the decoder of the resource modules does not.
\<close>

theorem session_list_partial_on_error_status:
  "session_list
     (scripted [page [PStr ''a'', PStr ''b''] (PInt 2),
                \<lparr>status_code = 500,
                 json = Some (PDict [(''message'', PStr ''Internal Server Error'')])\<rparr>])
     ''u'' (\<lambda>r. return_if_object r False) None ''data'' ''next-page'' fresh
   = Some (Inr (PList [PStr ''a'', PStr ''b'']),
       \<lparr>requests = [(''u'', PNone), (''u'', PDict [(''page[number]'', PInt 2)])],
        heap = (\<lambda>a. [])(0 := [(''page[number]'', PInt 2)]), next_free = 1\<rparr>)"
  by (simp add: session_eval)

section \<open>Properties of the lookups\<close>

text \<open>
  The lookup by name fails when the listing has more than one item, returns \<open>None\<close> when it
  has none, and returns the item when it has one. The loop of the lookup by key returns
  the first variable with the key and the category, whatever comes after it, and \<open>None\<close>
  when no variable has both.
\<close>

lemma fetch_by_name_result:
  assumes "session_list srv link (\<lambda>response. return_if_object response False)
             (Some (next_free w)) ''data'' ''next-page''
             (w\<lparr>heap := (heap w)(next_free w := [(''filter[names]'', name)]),
                next_free := Suc (next_free w)\<rparr>)
           = Some (Inr (PList xs), w')"
  shows "fetch_by_name srv name link w =
           Some (if length xs > 1
                 then Inl (FailJson (ExpectedOneResult (length xs) (PList xs)))
                 else if xs = [] then Inr PNone else Inr (hd xs), w')"
  using assms by (cases xs) (simp_all add: fetch_by_name_def Let_def)

lemma find_var_first_match:
  assumes "map_of m ''attributes'' = Some (PDict am)"
    and "map_of am ''key'' = Some (PStr key)"
    and "map_of am ''category'' = Some (PStr category)"
  shows "find_var key category (PDict m # rest) = Inr (PDict m)"
  using assms by simp

lemma find_var_no_match:
  assumes "\<forall>var\<in>set vars. \<exists>m am. var = PDict m \<and> map_of m ''attributes'' = Some (PDict am) \<and>
             (map_of am ''key'' \<noteq> Some (PStr key) \<or>
              map_of am ''category'' \<noteq> Some (PStr category))"
  shows "find_var key category vars = Inr PNone"
  using assms
proof (induction vars)
  case Nil
  show ?case by simp
next
  case (Cons var vars)
  then obtain m am where var: "var = PDict m" "map_of m ''attributes'' = Some (PDict am)"
    and no: "map_of am ''key'' \<noteq> Some (PStr key) \<or>
             map_of am ''category'' \<noteq> Some (PStr category)"
    by auto
  from Cons have rest: "find_var key category vars = Inr PNone" by simp
  from var no rest show ?case by (auto split: option.splits)
qed

text \<open>Two projects in the answer to the lookup by name: the lookup fails.\<close>

lemma fetch_by_name_fails_on_two:
  "fetch_by_name
     (scripted [page [PDict [(''id'', PStr ''prj-1'')], PDict [(''id'', PStr ''prj-2'')]] PNone])
     (PStr ''demo'') ''u'' fresh
   = Some (Inl (FailJson (ExpectedOneResult 2
                 (PList [PDict [(''id'', PStr ''prj-1'')], PDict [(''id'', PStr ''prj-2'')]]))),
       \<lparr>requests = [(''u'', PDict [(''filter[names]'', PStr ''demo'')])],
        heap = (\<lambda>a. [])(0 := [(''filter[names]'', PStr ''demo'')]), next_free = 1\<rparr>)"
  by (simp add: fetch_by_name_def session_eval)

text \<open>
  Claim C1 at the lookup by key of \<open>hcp_terraform_var.py\<close>: two variables with the key
  \<open>region\<close> and the category \<open>env\<close> in the answer. The lookup does not fail; it returns the
  first of the two.
\<close>

theorem fetch_by_key_returns_first_of_two:
  "fetch_by_key
     (scripted
        [\<lparr>status_code = 200,
          json = Some (PDict [(''data'', PList
            [PDict [(''id'', PStr ''var-1''),
                    (''attributes'', PDict [(''key'', PStr ''region''),
                                            (''category'', PStr ''env''),
                                            (''value'', PStr ''eu'')])],
             PDict [(''id'', PStr ''var-2''),
                    (''attributes'', PDict [(''key'', PStr ''region''),
                                            (''category'', PStr ''env''),
                                            (''value'', PStr ''us'')])]])])\<rparr>])
     ''region'' ''env'' ''u'' fresh
   = (Inr (PDict [(''id'', PStr ''var-1''),
                  (''attributes'', PDict [(''key'', PStr ''region''),
                                          (''category'', PStr ''env''),
                                          (''value'', PStr ''eu'')])]),
      \<lparr>requests = [(''u'', PNone)], heap = (\<lambda>a. []), next_free = 0\<rparr>)"
  by (simp add: fetch_by_key_def session_get_def scripted_def fresh_def return_if_object_def
      navigate_hash.simps)

end
